theory Spec2Isabelle
  imports Complex_Main
begin

section \<open>The MOORA family of ranking methods (skcriteria/madm/moora.py)\<close>

text \<open>
  The module works on numpy arrays of floating point numbers. The embedding takes the
  entries to be real numbers: a score is the real number that the formula of the code
  denotes, without rounding. Where numpy would produce a value that is no real number
  (the logarithm of a non-positive entry is \<open>-inf\<close> or \<open>nan\<close>), the model returns an
  error value instead, so that every result \<open>Inr _\<close> is a computation on real numbers.

  A decision matrix is the list of its rows; a nested list with at least one row is a
  two-dimensional array for numpy, and the list without rows stands for the array of
  shape (0, 0).
\<close>

datatype error =
    InvalidCriteriaError
  | DegenerateColumnError
  | ValueError
  | IndexError
  | LogOfNonPositive

type_synonym matrix = "real list list"

definition ncols :: "'a list list \<Rightarrow> nat" where
  "ncols M = (case M of [] \<Rightarrow> 0 | r # _ \<Rightarrow> length r)"

definition col :: "'a list list \<Rightarrow> nat \<Rightarrow> 'a list" where
  "col M j = map (\<lambda>r. r ! j) M"

text \<open>An array of shape (n, m) with at least one row.\<close>

definition is_matrix :: "nat \<Rightarrow> nat \<Rightarrow> 'a list list \<Rightarrow> bool" where
  "is_matrix n m M \<longleftrightarrow> length M = n \<and> 0 < n \<and> list_all (\<lambda>r. length r = m) M"

subsection \<open>The numpy operations the module calls\<close>

text \<open>
  Element-wise operations on two one-dimensional arrays follow numpy's broadcasting: the
  lengths agree, or one of them is 1 and its element is repeated; anything else raises
  ValueError.
\<close>

definition broadcast :: "('a \<Rightarrow> 'b \<Rightarrow> 'c) \<Rightarrow> 'a list \<Rightarrow> 'b list \<Rightarrow> error + 'c list" where
  "broadcast f xs ys =
     (if length xs = length ys then Inr (map2 f xs ys)
      else if length xs = 1 then Inr (map (f (hd xs)) ys)
      else if length ys = 1 then Inr (map (\<lambda>x. f x (hd ys)) xs)
      else Inl ValueError)"

text \<open>The same for each row of a two-dimensional array against a one-dimensional one.\<close>

fun broadcast_rows :: "('a \<Rightarrow> 'b \<Rightarrow> 'c) \<Rightarrow> 'a list list \<Rightarrow> 'b list \<Rightarrow> error + 'c list list" where
  "broadcast_rows f [] ys = Inr []"
| "broadcast_rows f (r # rs) ys =
     (case broadcast f r ys of
        Inl e \<Rightarrow> Inl e
      | Inr r' \<Rightarrow> (case broadcast_rows f rs ys of Inl e \<Rightarrow> Inl e | Inr rs' \<Rightarrow> Inr (r' # rs')))"

text \<open>
  The weights argument of \<open>_ratio\<close> and \<open>_refpoint\<close> is either the scalar 1 (no weights
  were given) or a one-dimensional array.
\<close>

datatype weights = Scalar real | Vector "real list"

definition weights_times_vector :: "weights \<Rightarrow> real list \<Rightarrow> error + real list" where
  "weights_times_vector w v =
     (case w of Scalar s \<Rightarrow> Inr (map (\<lambda>x. s * x) v) | Vector ws \<Rightarrow> broadcast (\<lambda>a b. a * b) ws v)"

definition weights_times_matrix :: "weights \<Rightarrow> matrix \<Rightarrow> error + matrix" where
  "weights_times_matrix w M =
     (case w of
        Scalar s \<Rightarrow> Inr (map (map (\<lambda>x. s * x)) M)
      | Vector ws \<Rightarrow> broadcast_rows (\<lambda>x a. a * x) M ws)"

text \<open>
  \<open>np.inner\<close> of a two-dimensional and a one-dimensional array: the sum of products along
  the last axis of both, which must have the same length.
\<close>

definition np_inner :: "matrix \<Rightarrow> real list \<Rightarrow> error + real list" where
  "np_inner M v =
     (if ncols M = length v then Inr (map (\<lambda>r. sum_list (map2 (\<lambda>a b. a * b) r v)) M)
      else Inl ValueError)"

subsection \<open>Criteria and ranks (skcriteria.util, skcriteria.rank)\<close>

text \<open>
  Modelled from the spec: the constants \<open>util.MAX\<close> and \<open>util.MIN\<close>; module
  \<open>skcriteria/util.py\<close> is missing. The spec gives the canonical values +1 and -1.
\<close>

definition util_MAX :: int where "util_MAX = 1"
definition util_MIN :: int where "util_MIN = - 1"

text \<open>
  Modelled from the spec: \<open>util.criteriarr\<close>; module \<open>skcriteria/util.py\<close> is missing.
  It returns the criteria as an integer array and fails with an InvalidCriteriaError when
  an element is neither MAX nor MIN.
\<close>

definition criteriarr :: "int list \<Rightarrow> error + int list" where
  "criteriarr criteria =
     (if list_all (\<lambda>c. c = util_MAX \<or> c = util_MIN) criteria then Inr criteria
      else Inl InvalidCriteriaError)"

text \<open>
  Modelled from the spec: \<open>rank.rankdata\<close>; module \<open>skcriteria/rank.py\<close> is missing.
  It returns zero-based ranks, ascending by default (the smallest value has rank 0) and
  descending with \<open>reverse=True\<close> (the largest value has rank 0); equal values are ranked
  in the order of their positions, as a stable sort by value and then by index does. The
  rank of position \<open>i\<close> is the number of positions that come before it in that order.
\<close>

definition precedes :: "real list \<Rightarrow> bool \<Rightarrow> nat \<Rightarrow> nat \<Rightarrow> bool" where
  "precedes arr reverse j i \<longleftrightarrow>
     (if reverse then arr ! i < arr ! j else arr ! j < arr ! i) \<or> (arr ! j = arr ! i \<and> j < i)"

definition rankdata :: "real list \<Rightarrow> bool \<Rightarrow> nat list" where
  "rankdata arr reverse =
     map (\<lambda>i. length (filter (\<lambda>j. precedes arr reverse j i) [0..<length arr])) [0..<length arr]"

subsection \<open>Ratio\<close>

text \<open>
  \<open>_ratio(nmtx, criteria, nweights)\<close>. \<open>np.squeeze\<close> leaves a vector of scores as it is
  (for a single alternative it yields a zero-dimensional array, which is identified with
  the vector of one element).
\<close>

definition priv_ratio :: "matrix \<Rightarrow> int list \<Rightarrow> weights \<Rightarrow> error + (nat list \<times> real list)" where
  "priv_ratio nmtx criteria nweights =
     (case weights_times_vector nweights (map real_of_int criteria) of
        Inl e \<Rightarrow> Inl e
      | Inr cweights \<Rightarrow>
          (case np_inner nmtx cweights of
             Inl e \<Rightarrow> Inl e
           | Inr rank_mtx \<Rightarrow> (let points = rank_mtx in Inr (rankdata points True, points))))"

definition ratio ::
  "(matrix \<Rightarrow> error + matrix) \<Rightarrow> (real list \<Rightarrow> error + real list) \<Rightarrow>
   matrix \<Rightarrow> int list \<Rightarrow> real list option \<Rightarrow> error + (nat list \<times> real list)" where
  "ratio mnorm wnorm mtx criteria weights =
     (case mnorm mtx of
        Inl e \<Rightarrow> Inl e
      | Inr nmtx \<Rightarrow>
          (case criteriarr criteria of
             Inl e \<Rightarrow> Inl e
           | Inr ncriteria \<Rightarrow>
               (case (case weights of None \<Rightarrow> Inr (Scalar 1) | Some w \<Rightarrow> map_sum id Vector (wnorm w)) of
                  Inl e \<Rightarrow> Inl e
                | Inr nweights \<Rightarrow> priv_ratio nmtx ncriteria nweights)))"

subsection \<open>Reference point\<close>

text \<open>
  \<open>np.max\<close> and \<open>np.min\<close> along an axis raise ValueError when the axis they reduce has
  length 0.
\<close>

definition np_max_axis0 :: "matrix \<Rightarrow> error + real list" where
  "np_max_axis0 M =
     (if M = [] then Inl ValueError else Inr (map (\<lambda>j. Max (set (col M j))) [0..<ncols M]))"

definition np_min_axis0 :: "matrix \<Rightarrow> error + real list" where
  "np_min_axis0 M =
     (if M = [] then Inl ValueError else Inr (map (\<lambda>j. Min (set (col M j))) [0..<ncols M]))"

definition np_max_axis1 :: "matrix \<Rightarrow> error + real list" where
  "np_max_axis1 M = (if ncols M = 0 then Inl ValueError else Inr (map (\<lambda>r. Max (set r)) M))"

text \<open>
  \<open>_refpoint(nmtx, criteria, weights)\<close>. The mask holds the criterion where it is MAX
  and 0 elsewhere; \<open>np.where(mask, rpmax, rpmin)\<close> takes the column maximum where the
  mask is not 0 and the column minimum elsewhere.
\<close>

definition priv_refpoint :: "matrix \<Rightarrow> int list \<Rightarrow> weights \<Rightarrow> error + (nat list \<times> real list)" where
  "priv_refpoint nmtx criteria weights =
     (case np_max_axis0 nmtx of
        Inl e \<Rightarrow> Inl e
      | Inr rpmax \<Rightarrow>
     (case np_min_axis0 nmtx of
        Inl e \<Rightarrow> Inl e
      | Inr rpmin \<Rightarrow>
     (let mask = map (\<lambda>c. if c = util_MAX then c else 0) criteria in
     (case broadcast (\<lambda>b (mx, mn). if b \<noteq> 0 then mx else mn) mask (zip rpmax rpmin) of
        Inl e \<Rightarrow> Inl e
      | Inr rpoints \<Rightarrow>
     (case broadcast_rows (\<lambda>x r. x - r) nmtx rpoints of
        Inl e \<Rightarrow> Inl e
      | Inr diff \<Rightarrow>
     (case weights_times_matrix weights diff of
        Inl e \<Rightarrow> Inl e
      | Inr wdiff \<Rightarrow>
     (case np_max_axis1 (map (map abs) wdiff) of
        Inl e \<Rightarrow> Inl e
      | Inr rank_mtx \<Rightarrow>
          (let points = rank_mtx in Inr (rankdata points False, points)))))))))"

definition refpoint ::
  "(matrix \<Rightarrow> error + matrix) \<Rightarrow> (real list \<Rightarrow> error + real list) \<Rightarrow>
   matrix \<Rightarrow> int list \<Rightarrow> real list option \<Rightarrow> error + (nat list \<times> real list)" where
  "refpoint mnorm wnorm mtx criteria weights =
     (case mnorm mtx of
        Inl e \<Rightarrow> Inl e
      | Inr nmtx \<Rightarrow>
          (case criteriarr criteria of
             Inl e \<Rightarrow> Inl e
           | Inr ncriteria \<Rightarrow>
               (case (case weights of None \<Rightarrow> Inr (Scalar 1) | Some w \<Rightarrow> map_sum id Vector (wnorm w)) of
                  Inl e \<Rightarrow> Inl e
                | Inr nweights \<Rightarrow> priv_refpoint nmtx ncriteria nweights)))"

subsection \<open>Full multiplicative form\<close>

text \<open>
  \<open>np.log\<close> does not raise on an entry that is not positive: it warns and yields \<open>-inf\<close>
  or \<open>nan\<close>, which the scores then carry. No real number stands for these, and the
  logarithm of HOL is not the one of numpy there, so the model returns LogOfNonPositive.
\<close>

definition np_log :: "matrix \<Rightarrow> error + matrix" where
  "np_log M =
     (if list_all (list_all (\<lambda>x. 0 < x)) M then Inr (map (map ln) M) else Inl LogOfNonPositive)"

text \<open>
  \<open>np.setdiff1d(a, b)\<close>: the sorted distinct values of \<open>a\<close> that are not in \<open>b\<close>. The
  truth value of an array that \<open>not\<close> asks for: an empty array is false, an array of one
  element is true when the element is not 0, a longer array raises ValueError.
\<close>

definition setdiff1d :: "int list \<Rightarrow> int list \<Rightarrow> int list" where
  "setdiff1d a b = sort (remdups (filter (\<lambda>x. x \<notin> set b) a))"

definition np_not :: "int list \<Rightarrow> error + bool" where
  "np_not arr = (case arr of [] \<Rightarrow> Inr True | [x] \<Rightarrow> Inr (x = 0) | _ \<Rightarrow> Inl ValueError)"

text \<open>
  \<open>np.ravel(np.argwhere(criteria == v))\<close>: the positions that hold \<open>v\<close>.
  \<open>np.delete(lmtx, idxs, axis=1)\<close>: the array without the columns at \<open>idxs\<close>; a position
  that is not a column raises IndexError.
\<close>

definition argwhere_eq :: "int list \<Rightarrow> int \<Rightarrow> nat list" where
  "argwhere_eq criteria v = filter (\<lambda>j. criteria ! j = v) [0..<length criteria]"

definition np_delete_cols :: "matrix \<Rightarrow> nat list \<Rightarrow> error + matrix" where
  "np_delete_cols M idxs =
     (if list_all (\<lambda>j. j < ncols M) idxs
      then Inr (map (\<lambda>r. map (\<lambda>j. r ! j) (filter (\<lambda>j. j \<notin> set idxs) [0..<length r])) M)
      else Inl IndexError)"

definition np_sum_axis1 :: "matrix \<Rightarrow> real list" where
  "np_sum_axis1 M = map sum_list M"

text \<open>
  \<open>_fmf(nmtx, criteria)\<close>. In the mixed branch the source names the positions of the MAX
  criteria \<open>min_mask\<close>: deleting them leaves the MIN columns in \<open>min_arr\<close>.
\<close>

definition priv_fmf :: "matrix \<Rightarrow> int list \<Rightarrow> error + (nat list \<times> real list)" where
  "priv_fmf nmtx criteria =
     (case np_log nmtx of
        Inl e \<Rightarrow> Inl e
      | Inr lmtx \<Rightarrow>
     (case np_not (setdiff1d criteria [util_MAX]) of
        Inl e \<Rightarrow> Inl e
      | Inr only_max \<Rightarrow>
          if only_max then
            (let points = np_sum_axis1 lmtx in Inr (rankdata points True, points))
          else
     (case np_not (setdiff1d criteria [util_MIN]) of
        Inl e \<Rightarrow> Inl e
      | Inr only_min \<Rightarrow>
          if only_min then
            (let points = map (\<lambda>s. 1 - s) (np_sum_axis1 lmtx)
             in Inr (rankdata points True, points))
          else
            (let min_mask = argwhere_eq criteria util_MAX;
                 max_mask = argwhere_eq criteria util_MIN
             in
     (case np_delete_cols lmtx min_mask of
        Inl e \<Rightarrow> Inl e
      | Inr min_arr \<Rightarrow>
     (case np_delete_cols lmtx max_mask of
        Inl e \<Rightarrow> Inl e
      | Inr max_arr \<Rightarrow>
          (let mins = np_sum_axis1 min_arr;
               maxs = np_sum_axis1 max_arr;
               points = map2 (\<lambda>a b. a - b) maxs mins
           in Inr (rankdata points True, points))))))))"

subsection \<open>Normalization (skcriteria.norm)\<close>

text \<open>
  Modelled from the spec: \<open>norm.push_negatives\<close> with \<open>axis=0\<close>; module
  \<open>skcriteria/norm.py\<close> is missing. Where the minimum of a column is negative, its
  absolute value is added to every element of the column; other columns are unchanged.
\<close>

definition push_negatives :: "matrix \<Rightarrow> matrix" where
  "push_negatives M =
     (let delta = map (\<lambda>j. let mn = Min (set (col M j)) in if mn < 0 then \<bar>mn\<bar> else 0)
                      [0..<ncols M]
      in map (\<lambda>r. map2 (\<lambda>x d. x + d) r delta) M)"

text \<open>
  Modelled from the spec: \<open>norm.add1to0\<close> with \<open>axis=0\<close>; module \<open>skcriteria/norm.py\<close>
  is missing. Where the minimum of a column is exactly 0, 1 is added to every element of
  the column; other columns are unchanged.
\<close>

definition add1to0 :: "matrix \<Rightarrow> matrix" where
  "add1to0 M =
     (let increment = map (\<lambda>j. if Min (set (col M j)) = 0 then 1 else 0) [0..<ncols M]
      in map (\<lambda>r. map2 (\<lambda>x d. x + d) r increment) M)"

text \<open>
  Modelled from the spec: \<open>norm.vector\<close> with \<open>axis=0\<close>; module \<open>skcriteria/norm.py\<close> is
  missing. Each column is divided by its Euclidean norm, the square root of the sum of its
  squares; the operation fails on a column of zeros.
\<close>

definition vector :: "matrix \<Rightarrow> error + matrix" where
  "vector M =
     (let norms = map (\<lambda>j. sqrt (sum_list (map (\<lambda>x. x * x) (col M j)))) [0..<ncols M]
      in if list_ex (\<lambda>d. d = 0) norms then Inl DegenerateColumnError
         else Inr (map (\<lambda>r. map2 (\<lambda>x d. x / d) r norms) M))"

definition fmf :: "(matrix \<Rightarrow> error + matrix) \<Rightarrow> matrix \<Rightarrow> int list \<Rightarrow> error + (nat list \<times> real list)" where
  "fmf mnorm mtx criteria =
     (let non_negative = push_negatives mtx;
          non_zero = add1to0 non_negative
      in case mnorm non_zero of
           Inl e \<Rightarrow> Inl e
         | Inr nmtx \<Rightarrow>
             (case criteriarr criteria of
                Inl e \<Rightarrow> Inl e
              | Inr ncriteria \<Rightarrow> priv_fmf nmtx ncriteria))"

subsection \<open>Multi-MOORA\<close>

text \<open>
  Modelled from the spec: \<open>rank.dominance\<close>; module \<open>skcriteria/rank.py\<close> is missing. It
  compares two rank vectors component by component; a component favours the vector with
  the lower rank there. The value is the number of components that favour the first
  vector minus the number that favour the second, so it is positive exactly when the
  first vector has the majority.
\<close>

definition dominance :: "nat list \<Rightarrow> nat list \<Rightarrow> int" where
  "dominance array_a array_b =
     int (length (filter (\<lambda>(a, b). a < b) (zip array_a array_b)))
     - int (length (filter (\<lambda>(a, b). b < a) (zip array_a array_b)))"

text \<open>\<open>itertools.combinations(range(n), 2)\<close>: the pairs \<open>(i, j)\<close> with \<open>i < j < n\<close>, in
  lexicographic order.\<close>

definition combinations2 :: "nat \<Rightarrow> (nat \<times> nat) list" where
  "combinations2 n = concat (map (\<lambda>i. map (\<lambda>j. (i, j)) [Suc i..<n]) [0..<n])"

text \<open>
  The body of the loop of \<open>multimoora\<close>, for a dominance function \<open>domfun\<close>, and the loop
  itself, which starts from \<open>np.zeros(alternatives)\<close>.
\<close>

definition award :: "(nat list \<Rightarrow> nat list \<Rightarrow> int) \<Rightarrow> nat list list \<Rightarrow> real list \<Rightarrow> nat \<times> nat \<Rightarrow> real list" where
  "award domfun rank_mtx points p =
     (case p of (idx0, idx1) \<Rightarrow>
        (let alt0 = rank_mtx ! idx0;
             alt1 = rank_mtx ! idx1;
             d = domfun alt0 alt1;
             dom_idx = (if 0 < d then idx0 else idx1)
         in points[dom_idx := points ! dom_idx + 1]))"

definition tally :: "(nat list \<Rightarrow> nat list \<Rightarrow> int) \<Rightarrow> nat list list \<Rightarrow> real list" where
  "tally domfun rank_mtx =
     (let alternatives = length rank_mtx
      in foldl (award domfun rank_mtx) (replicate alternatives 0) (combinations2 alternatives))"

definition multimoora ::
  "(matrix \<Rightarrow> error + matrix) \<Rightarrow> matrix \<Rightarrow> int list \<Rightarrow> error + (nat list \<times> nat list list)" where
  "multimoora mnorm mtx criteria =
     (case mnorm mtx of
        Inl e \<Rightarrow> Inl e
      | Inr nmtx \<Rightarrow>
     (case criteriarr criteria of
        Inl e \<Rightarrow> Inl e
      | Inr ncriteria \<Rightarrow>
     (case priv_ratio nmtx ncriteria (Scalar 1) of
        Inl e \<Rightarrow> Inl e
      | Inr (ratio_rank, _) \<Rightarrow>
     (case priv_refpoint nmtx ncriteria (Scalar 1) of
        Inl e \<Rightarrow> Inl e
      | Inr (refpoint_rank, _) \<Rightarrow>
     (case priv_fmf nmtx ncriteria of
        Inl e \<Rightarrow> Inl e
      | Inr (fmf_rank, _) \<Rightarrow>
          (let rank_mtx = transpose [ratio_rank, refpoint_rank, fmf_rank];
               points = tally dominance rank_mtx
           in Inr (rankdata points True, rank_mtx)))))))"

subsection \<open>Notions used in the statements\<close>

text \<open>The weight of column \<open>j\<close>, and weights that fit a matrix of \<open>m\<close> columns.\<close>

definition weight_at :: "weights \<Rightarrow> nat \<Rightarrow> real" where
  "weight_at w j = (case w of Scalar s \<Rightarrow> s | Vector ws \<Rightarrow> ws ! j)"

definition weights_fit :: "nat \<Rightarrow> weights \<Rightarrow> bool" where
  "weights_fit m w = (case w of Scalar s \<Rightarrow> True | Vector ws \<Rightarrow> length ws = m)"

text \<open>
  The reference point of the statement of the reference point score: the maximum of column
  \<open>j\<close> when criterion \<open>j\<close> is MAX, and its minimum otherwise.
\<close>

definition reference_point :: "matrix \<Rightarrow> int list \<Rightarrow> nat \<Rightarrow> real" where
  "reference_point nmtx criteria j =
     (if criteria ! j = util_MAX then Max (set (col nmtx j)) else Min (set (col nmtx j)))"

text \<open>Matrices whose entries are all strictly positive, and criteria vectors of length
  \<open>m\<close> that hold MAX and MIN only.\<close>

definition positive :: "matrix \<Rightarrow> bool" where
  "positive M = list_all (list_all (\<lambda>x. 0 < x)) M"

definition valid_criteria :: "nat \<Rightarrow> int list \<Rightarrow> bool" where
  "valid_criteria m criteria \<longleftrightarrow>
     length criteria = m \<and> list_all (\<lambda>c. c = util_MAX \<or> c = util_MIN) criteria"

text \<open>
  The general mixed formula of the spec for the score of alternative \<open>i\<close>, to be compared
  with the special cases of \<open>_fmf\<close>: the sum of the logarithms over the MAX columns minus
  the sum of the logarithms over the MIN columns.
\<close>

definition log_sum_over :: "int \<Rightarrow> matrix \<Rightarrow> int list \<Rightarrow> nat \<Rightarrow> real" where
  "log_sum_over v nmtx criteria i =
     sum_list (map (\<lambda>j. ln (nmtx ! i ! j)) (filter (\<lambda>j. criteria ! j = v) [0..<length criteria]))"

definition spec_mixed_formula :: "matrix \<Rightarrow> int list \<Rightarrow> nat \<Rightarrow> real" where
  "spec_mixed_formula nmtx criteria i =
     log_sum_over util_MAX nmtx criteria i - log_sum_over util_MIN nmtx criteria i"

text \<open>The index that the body of the loop of \<open>multimoora\<close> awards a point to, for the pair
  \<open>p\<close>.\<close>

definition winner :: "(nat list \<Rightarrow> nat list \<Rightarrow> int) \<Rightarrow> nat list list \<Rightarrow> nat \<times> nat \<Rightarrow> nat" where
  "winner domfun rank_mtx p =
     (if 0 < domfun (rank_mtx ! fst p) (rank_mtx ! snd p) then fst p else snd p)"

section \<open>Properties\<close>

subsection \<open>Shapes\<close>

lemma is_matrix_ncols: "is_matrix n m M \<Longrightarrow> ncols M = m"
  by (cases M) (auto simp: is_matrix_def ncols_def)

lemma is_matrix_row: "is_matrix n m M \<Longrightarrow> i < n \<Longrightarrow> length (M ! i) = m"
  by (auto simp: is_matrix_def list_all_length)

lemma is_matrix_length: "is_matrix n m M \<Longrightarrow> length M = n"
  by (simp add: is_matrix_def)

lemma sum_list_map2_nth:
  "length xs = length ys \<Longrightarrow> sum_list (map2 f xs ys) = (\<Sum>j<length ys. f (xs ! j) (ys ! j))"
  by (simp add: sum_list_sum_nth atLeast0LessThan)

lemma weights_times_vector_fit:
  "weights_fit (length v) w \<Longrightarrow>
   weights_times_vector w v = Inr (map (\<lambda>j. weight_at w j * v ! j) [0..<length v])"
  by (cases w) (auto simp: weights_times_vector_def weights_fit_def weight_at_def broadcast_def
      intro!: nth_equalityI)

subsection \<open>The ratio score\<close>

text \<open>
  Claim C5. For a normalized matrix of n rows and m columns, a criteria vector of length m
  and weights that are a scalar or a vector of length m, \<open>_ratio\<close> returns n scores, and
  the score of alternative i is the sum over the columns j of
  \<open>N[i,j] * (W[j] * C[j])\<close>: the inner product of row i with the element-wise product of
  the weights and the criteria.
\<close>

theorem ratio_score_inner_product:
  assumes "is_matrix n m nmtx" and "length criteria = m" and "weights_fit m nweights"
  shows "\<exists>rnk pts. priv_ratio nmtx criteria nweights = Inr (rnk, pts) \<and> length pts = n \<and>
           (\<forall>i<n. pts ! i =
              (\<Sum>j<m. nmtx ! i ! j * (weight_at nweights j * real_of_int (criteria ! j))))"
proof -
  let ?cw = "map (\<lambda>j. weight_at nweights j * real_of_int (criteria ! j)) [0..<m]"
  have cw: "weights_times_vector nweights (map real_of_int criteria) = Inr ?cw"
    using weights_times_vector_fit [of "map real_of_int criteria" nweights] assms(2,3)
    by (simp cong: map_cong)
  have inner: "np_inner nmtx ?cw = Inr (map (\<lambda>r. sum_list (map2 (\<lambda>a b. a * b) r ?cw)) nmtx)"
    using is_matrix_ncols [OF assms(1)] by (simp add: np_inner_def)
  have row: "sum_list (map2 (\<lambda>a b. a * b) (nmtx ! i) ?cw) =
      (\<Sum>j<m. nmtx ! i ! j * (weight_at nweights j * real_of_int (criteria ! j)))" if "i < n" for i
    using is_matrix_row [OF assms(1) that] sum_list_map2_nth [of "nmtx ! i" ?cw "\<lambda>a b. a * b"]
    by simp
  show ?thesis
    using row is_matrix_length [OF assms(1)] by (simp add: priv_ratio_def cw inner Let_def)
qed

theorem ratio_score_inner_product_witness:
  "is_matrix 3 3 ([[1, 2, 3], [1, 1, 4], [2, 0, 1]] :: matrix) \<and>
   weights_fit 3 (Vector [1/2, 1/4, 1/4]) \<and>
   (\<exists>rnk pts. priv_ratio [[1, 2, 3], [1, 1, 4], [2, 0, 1]] [1, - 1, 1] (Vector [1/2, 1/4, 1/4])
        = Inr (rnk, pts) \<and> pts ! 0 = 3/4)"
proof -
  let ?M = "[[1, 2, 3], [1, 1, 4], [2, 0, 1]] :: matrix"
  let ?w = "Vector [1/2, 1/4, 1/4]"
  have h1: "is_matrix 3 3 ?M" by (simp add: is_matrix_def)
  have h2: "length [1, - 1, 1 :: int] = 3" by simp
  have h3: "weights_fit 3 ?w" by (simp add: weights_fit_def)
  from ratio_score_inner_product [OF h1 h2 h3] obtain rnk pts
    where r: "priv_ratio ?M [1, - 1, 1] ?w = Inr (rnk, pts)"
      and p: "\<forall>i<3. pts ! i = (\<Sum>j<3. ?M ! i ! j * (weight_at ?w j * real_of_int ([1, - 1, 1] ! j)))"
    by blast
  from p have "pts ! 0 = 3/4"
    by (simp add: weight_at_def lessThan_Suc numeral_3_eq_3)
  with h1 h3 r show ?thesis by blast
qed

subsection \<open>The reference point score\<close>

lemma is_matrix_rows: "is_matrix n m M \<Longrightarrow> r \<in> set M \<Longrightarrow> length r = m"
  by (auto simp: is_matrix_def list_all_iff)

lemma ncols_map_rows: "M \<noteq> [] \<Longrightarrow> (\<And>r. length (f r) = m) \<Longrightarrow> ncols (map f M) = m"
  by (cases M) (simp_all add: ncols_def)

lemma broadcast_fit:
  "length xs = length ys \<Longrightarrow> broadcast f xs ys = Inr (map (\<lambda>j. f (xs ! j) (ys ! j)) [0..<length ys])"
  by (auto simp: broadcast_def intro!: nth_equalityI)

lemma broadcast_rows_fit:
  "(\<And>r. r \<in> set M \<Longrightarrow> length r = length ys) \<Longrightarrow>
   broadcast_rows f M ys = Inr (map (\<lambda>r. map (\<lambda>j. f (r ! j) (ys ! j)) [0..<length ys]) M)"
  by (induction M) (simp_all add: broadcast_fit)

lemma weights_times_matrix_fit:
  assumes "weights_fit m w" and "\<forall>r\<in>set M. length r = m"
  shows "weights_times_matrix w M = Inr (map (\<lambda>r. map (\<lambda>j. weight_at w j * r ! j) [0..<m]) M)"
proof (cases w)
  case (Scalar s)
  have "map (\<lambda>x. s * x) r = map (\<lambda>j. s * r ! j) [0..<m]" if "r \<in> set M" for r
    using assms(2) that by (auto intro!: nth_equalityI)
  then show ?thesis
    using Scalar by (simp add: weights_times_matrix_def weight_at_def cong: map_cong)
next
  case (Vector ws)
  then have "length ws = m" using assms(1) by (simp add: weights_fit_def)
  then show ?thesis
    using Vector assms(2) broadcast_rows_fit [of M ws "\<lambda>x a. a * x"]
    by (simp add: weights_times_matrix_def weight_at_def)
qed

text \<open>
  Claim C6. For a normalized matrix of n rows and m columns with m positive, a criteria
  vector of length m and weights that are a scalar or a vector of length m, \<open>_refpoint\<close>
  returns n scores, and the score of alternative i is the maximum over the columns j of
  \<open>|W[j] * (N[i,j] - reference[j])|\<close>, where the reference of a column is its maximum
  when the criterion is MAX and its minimum otherwise.
\<close>

theorem refpoint_score_chebyshev:
  assumes "is_matrix n m nmtx" and "0 < m" and "length criteria = m" and "weights_fit m weights"
  shows "\<exists>rnk pts. priv_refpoint nmtx criteria weights = Inr (rnk, pts) \<and> length pts = n \<and>
           (\<forall>i<n. pts ! i =
              Max ((\<lambda>j. \<bar>weight_at weights j * (nmtx ! i ! j - reference_point nmtx criteria j)\<bar>)
                   ` {..<m}))"
proof -
  have ne: "nmtx \<noteq> []" using assms(1) by (auto simp: is_matrix_def)
  have nc: "ncols nmtx = m" by (rule is_matrix_ncols [OF assms(1)])
  let ?rp = "map (reference_point nmtx criteria) [0..<m]"
  have rp: "broadcast (\<lambda>b (mx, mn). if b \<noteq> 0 then mx else mn)
              (map (\<lambda>c. if c = util_MAX then c else 0) criteria)
              (zip (map (\<lambda>j. Max (set (col nmtx j))) [0..<m])
                   (map (\<lambda>j. Min (set (col nmtx j))) [0..<m])) = Inr ?rp"
    using assms(3) by (simp add: broadcast_fit reference_point_def util_MAX_def)
  let ?diff = "map (\<lambda>r. map (\<lambda>j. r ! j - reference_point nmtx criteria j) [0..<m]) nmtx"
  have diff: "broadcast_rows (\<lambda>x r. x - r) nmtx ?rp = Inr ?diff"
    using broadcast_rows_fit [of nmtx ?rp "\<lambda>x r. x - r"] is_matrix_rows [OF assms(1)]
    by (simp cong: map_cong)
  let ?wd = "map (\<lambda>r. map (\<lambda>j. weight_at weights j * (r ! j - reference_point nmtx criteria j)) [0..<m]) nmtx"
  have len: "\<forall>r\<in>set ?diff. length r = m"
    by auto
  have "map (\<lambda>r. map (\<lambda>j. weight_at weights j * r ! j) [0..<m]) ?diff = ?wd"
    by (simp add: comp_def cong: map_cong)
  with weights_times_matrix_fit [OF assms(4) len]
  have wd: "weights_times_matrix weights ?diff = Inr ?wd"
    by simp
  let ?ad = "map (\<lambda>r. map (\<lambda>j. \<bar>weight_at weights j * (r ! j - reference_point nmtx criteria j)\<bar>) [0..<m]) nmtx"
  have ad: "map (map abs) ?wd = ?ad"
    by (simp add: comp_def)
  have nc2: "ncols ?ad = m"
    by (rule ncols_map_rows [OF ne]) simp
  have mx: "np_max_axis1 ?ad = Inr (map (\<lambda>r. Max (set r)) ?ad)"
    using assms(2) by (simp only: np_max_axis1_def nc2) simp
  have "priv_refpoint nmtx criteria weights =
          Inr (rankdata (map (\<lambda>r. Max (set r)) ?ad) False, map (\<lambda>r. Max (set r)) ?ad)"
    by (simp only: priv_refpoint_def np_max_axis0_def np_min_axis0_def ne nc rp diff wd ad mx
        Let_def if_False sum.case)
  then show ?thesis
    using is_matrix_length [OF assms(1)]
    by (simp add: comp_def image_image atLeast0LessThan)
qed


theorem refpoint_score_chebyshev_witness:
  "is_matrix 3 3 ([[1, 2, 3], [1, 1, 4], [2, 0, 1]] :: matrix) \<and> weights_fit 3 (Scalar 1) \<and>
   (\<exists>rnk pts. priv_refpoint [[1, 2, 3], [1, 1, 4], [2, 0, 1]] [1, - 1, 1] (Scalar 1)
        = Inr (rnk, pts) \<and> pts ! 0 = 2)"
proof -
  let ?M = "[[1, 2, 3], [1, 1, 4], [2, 0, 1]] :: matrix"
  let ?c = "[1, - 1, 1] :: int list"
  have h1: "is_matrix 3 3 ?M" by (simp add: is_matrix_def)
  have h2: "(0::nat) < 3" by simp
  have h3: "length ?c = 3" by simp
  have h4: "weights_fit 3 (Scalar 1)" by (simp add: weights_fit_def)
  from refpoint_score_chebyshev [OF h1 h2 h3 h4] obtain rnk pts
    where r: "priv_refpoint ?M ?c (Scalar 1) = Inr (rnk, pts)"
      and p: "\<forall>i<3. pts ! i =
                Max ((\<lambda>j. \<bar>weight_at (Scalar 1) j * (?M ! i ! j - reference_point ?M ?c j)\<bar>) ` {..<3})"
    by blast
  from p have "pts ! 0 = 2"
    by (simp add: weight_at_def reference_point_def col_def util_MAX_def lessThan_Suc
        numeral_3_eq_3)
  with h1 h4 r show ?thesis by blast
qed

subsection \<open>The full multiplicative form\<close>

lemma remdups_filter_criteria:
  "list_all (\<lambda>c. c = a \<or> c = b) cs \<Longrightarrow> a \<noteq> b \<Longrightarrow>
   remdups (filter (\<lambda>x. x \<noteq> a) cs) = (if b \<in> set cs then [b] else [])"
  by (induction cs) auto

lemma setdiff1d_MAX:
  "list_all (\<lambda>c. c = util_MAX \<or> c = util_MIN) cs \<Longrightarrow>
   setdiff1d cs [util_MAX] = (if util_MIN \<in> set cs then [util_MIN] else [])"
  using remdups_filter_criteria [of util_MAX util_MIN cs]
  by (simp add: setdiff1d_def util_MAX_def util_MIN_def)

lemma setdiff1d_MIN:
  "list_all (\<lambda>c. c = util_MAX \<or> c = util_MIN) cs \<Longrightarrow>
   setdiff1d cs [util_MIN] = (if util_MAX \<in> set cs then [util_MAX] else [])"
proof -
  assume "list_all (\<lambda>c. c = util_MAX \<or> c = util_MIN) cs"
  then have "list_all (\<lambda>c. c = util_MIN \<or> c = util_MAX) cs"
    by (auto simp: list_all_iff)
  from remdups_filter_criteria [OF this] show ?thesis
    by (simp add: setdiff1d_def util_MAX_def util_MIN_def)
qed

lemma np_log_positive: "positive M \<Longrightarrow> np_log M = Inr (map (map ln) M)"
  by (simp add: np_log_def positive_def)

lemma delete_cols_keep:
  assumes "valid_criteria m criteria" and "v = util_MAX \<and> v' = util_MIN \<or> v = util_MIN \<and> v' = util_MAX"
    and "is_matrix n m M"
  shows "np_delete_cols M (argwhere_eq criteria v) =
           Inr (map (\<lambda>r. map (\<lambda>j. r ! j) (filter (\<lambda>j. criteria ! j = v') [0..<m])) M)"
proof -
  have nc: "ncols M = m" by (rule is_matrix_ncols [OF assms(3)])
  have bound: "list_all (\<lambda>j. j < ncols M) (argwhere_eq criteria v)"
    using assms(1) by (simp add: nc argwhere_eq_def valid_criteria_def list_all_iff)
  have keep: "filter (\<lambda>j. j \<notin> set (argwhere_eq criteria v)) [0..<length r] =
              filter (\<lambda>j. criteria ! j = v') [0..<m]" if "r \<in> set M" for r
  proof -
    have "length r = m" using assms(3) that by (auto simp: is_matrix_def list_all_iff)
    moreover have "j \<notin> set (argwhere_eq criteria v) \<longleftrightarrow> criteria ! j = v'" if "j < m" for j
      using assms(1,2) that
      by (auto simp: argwhere_eq_def valid_criteria_def list_all_length util_MAX_def util_MIN_def)
    ultimately show ?thesis by (intro filter_cong) simp_all
  qed
  show ?thesis
    using keep by (simp add: np_delete_cols_def bound cong: map_cong)
qed

text \<open>
  Claim C4. For a strictly positive normalized matrix of n rows and m columns and a
  criteria vector of length m that holds MAX and MIN only, with at least one MAX and at
  least one MIN, \<open>_fmf\<close> returns n scores, and the score of alternative i is the sum of the
  natural logarithms of its entries in the MAX columns minus the sum of the natural
  logarithms of its entries in the MIN columns.
\<close>

theorem fmf_mixed_score:
  assumes "is_matrix n m nmtx" and "positive nmtx" and "valid_criteria m criteria"
    and "util_MAX \<in> set criteria" and "util_MIN \<in> set criteria"
  shows "\<exists>rnk pts. priv_fmf nmtx criteria = Inr (rnk, pts) \<and> length pts = n \<and>
           (\<forall>i<n. pts ! i =
              sum_list (map (\<lambda>j. ln (nmtx ! i ! j)) (filter (\<lambda>j. criteria ! j = util_MAX) [0..<m]))
            - sum_list (map (\<lambda>j. ln (nmtx ! i ! j)) (filter (\<lambda>j. criteria ! j = util_MIN) [0..<m])))"
proof -
  let ?lmtx = "map (map ln) nmtx"
  have va: "list_all (\<lambda>c. c = util_MAX \<or> c = util_MIN) criteria"
    using assms(3) by (simp add: valid_criteria_def)
  have lm: "is_matrix n m ?lmtx"
    using assms(1) by (simp add: is_matrix_def list_all_iff)
  have not1: "np_not (setdiff1d criteria [util_MAX]) = Inr False"
    using assms(5) by (simp add: setdiff1d_MAX [OF va] np_not_def util_MIN_def)
  have not2: "np_not (setdiff1d criteria [util_MIN]) = Inr False"
    using assms(4) by (simp add: setdiff1d_MIN [OF va] np_not_def util_MAX_def)
  let ?keep = "\<lambda>v. map (\<lambda>r. map (\<lambda>j. r ! j) (filter (\<lambda>j. criteria ! j = v) [0..<m])) ?lmtx"
  have d1: "np_delete_cols ?lmtx (argwhere_eq criteria util_MAX) = Inr (?keep util_MIN)"
    by (rule delete_cols_keep [OF assms(3) _ lm]) simp
  have d2: "np_delete_cols ?lmtx (argwhere_eq criteria util_MIN) = Inr (?keep util_MAX)"
    by (rule delete_cols_keep [OF assms(3) _ lm]) simp
  let ?pts = "map2 (\<lambda>a b. a - b) (np_sum_axis1 (?keep util_MAX)) (np_sum_axis1 (?keep util_MIN))"
  have res: "priv_fmf nmtx criteria = Inr (rankdata ?pts True, ?pts)"
    by (simp only: priv_fmf_def np_log_positive [OF assms(2)] not1 not2 d1 d2 Let_def
        sum.case if_False)
  have len: "length nmtx = n" by (rule is_matrix_length [OF assms(1)])
  have row: "sum_list (map (\<lambda>j. map ln (nmtx ! i) ! j) (filter (\<lambda>j. criteria ! j = v) [0..<m])) =
             sum_list (map (\<lambda>j. ln (nmtx ! i ! j)) (filter (\<lambda>j. criteria ! j = v) [0..<m]))"
    if "i < n" for i v
  proof -
    have "length (nmtx ! i) = m" by (rule is_matrix_row [OF assms(1) that])
    then show ?thesis by (auto intro!: arg_cong [where f = sum_list] map_cong)
  qed
  show ?thesis
    using row by (simp add: res len np_sum_axis1_def comp_def)
qed


theorem fmf_mixed_score_witness:
  "is_matrix 2 2 ([[1, 2], [3, 4]] :: matrix) \<and> positive [[1, 2], [3, 4]] \<and>
   valid_criteria 2 [util_MAX, util_MIN] \<and>
   (\<exists>rnk pts. priv_fmf [[1, 2], [3, 4]] [util_MAX, util_MIN] = Inr (rnk, pts) \<and>
      pts ! 1 = ln 3 - ln 4)"
proof -
  let ?M = "[[1, 2], [3, 4]] :: matrix"
  let ?c = "[util_MAX, util_MIN]"
  have h1: "is_matrix 2 2 ?M" by (simp add: is_matrix_def)
  have h2: "positive ?M" by (simp add: positive_def)
  have h3: "valid_criteria 2 ?c" by (simp add: valid_criteria_def)
  have h4: "util_MAX \<in> set ?c" and h5: "util_MIN \<in> set ?c" by simp_all
  from fmf_mixed_score [OF h1 h2 h3 h4 h5] obtain rnk pts
    where r: "priv_fmf ?M ?c = Inr (rnk, pts)"
      and p: "\<forall>i<2. pts ! i =
                sum_list (map (\<lambda>j. ln (?M ! i ! j)) (filter (\<lambda>j. ?c ! j = util_MAX) [0..<2]))
              - sum_list (map (\<lambda>j. ln (?M ! i ! j)) (filter (\<lambda>j. ?c ! j = util_MIN) [0..<2]))"
    by blast
  have u: "[0..<2] = [0, 1]" by (simp add: upt_rec)
  from p have "pts ! 1 = ln 3 - ln 4"
    by (simp add: u util_MAX_def util_MIN_def)
  with h1 h2 h3 r show ?thesis by blast
qed

lemma rankdata_cong:
  assumes "length a = length b"
    and "\<And>i j. i < length a \<Longrightarrow> j < length a \<Longrightarrow> (a ! i < a ! j) = (b ! i < b ! j)"
    and "\<And>i j. i < length a \<Longrightarrow> j < length a \<Longrightarrow> (a ! i = a ! j) = (b ! i = b ! j)"
  shows "rankdata a r = rankdata b r"
proof -
  have "precedes a r j i = precedes b r j i" if "i < length a" "j < length a" for i j
    using assms(2) [OF that] assms(2) [OF that(2,1)] assms(3) [OF that(2,1)]
    by (simp add: precedes_def)
  then show ?thesis
    using assms(1) by (auto simp: rankdata_def intro!: arg_cong [where f = length] filter_cong)
qed

lemma log_sum_over_all:
  assumes "is_matrix n m nmtx" and "length criteria = m" and "i < n"
    and "list_all (\<lambda>c. c = v) criteria"
  shows "log_sum_over v nmtx criteria i = sum_list (map ln (nmtx ! i))"
proof -
  have len: "length (nmtx ! i) = m" by (rule is_matrix_row [OF assms(1,3)])
  have "filter (\<lambda>j. criteria ! j = v) [0..<length criteria] = [0..<m]"
    using assms(2,4) by (auto simp: list_all_length intro!: filter_True)
  moreover have "map (\<lambda>j. ln (nmtx ! i ! j)) [0..<m] = map ln (nmtx ! i)"
    using len by (auto intro!: nth_equalityI)
  ultimately show ?thesis by (simp add: log_sum_over_def)
qed

lemma log_sum_over_none:
  assumes "v \<notin> set criteria"
  shows "log_sum_over v nmtx criteria i = 0"
proof -
  have "filter (\<lambda>j. criteria ! j = v) [0..<length criteria] = []"
    using assms by (auto simp: filter_empty_conv)
  then show ?thesis by (simp add: log_sum_over_def)
qed

text \<open>
  Claim C3, as amended. For a strictly positive normalized matrix: when all criteria are
  MAX, the score of \<open>_fmf\<close> is the sum of the logarithms of the row, which is the value of
  the general mixed formula; when all criteria are MIN (and there is a criterion), the
  score is 1 minus the sum of the logarithms of the row, which is the value of the general
  mixed formula plus 1, and the rank vector is the one that the general formula gives.
\<close>

theorem fmf_special_cases:
  assumes "is_matrix n m nmtx" and "positive nmtx" and "length criteria = m"
  shows "(list_all (\<lambda>c. c = util_MAX) criteria \<longrightarrow>
            (\<exists>rnk pts. priv_fmf nmtx criteria = Inr (rnk, pts) \<and> length pts = n \<and>
               (\<forall>i<n. pts ! i = sum_list (map ln (nmtx ! i)) \<and>
                       pts ! i = spec_mixed_formula nmtx criteria i))) \<and>
         (list_all (\<lambda>c. c = util_MIN) criteria \<and> 0 < m \<longrightarrow>
            (\<exists>rnk pts. priv_fmf nmtx criteria = Inr (rnk, pts) \<and> length pts = n \<and>
               (\<forall>i<n. pts ! i = 1 - sum_list (map ln (nmtx ! i)) \<and>
                       pts ! i = spec_mixed_formula nmtx criteria i + 1) \<and>
               rnk = rankdata (map (spec_mixed_formula nmtx criteria) [0..<n]) True))"
proof (intro conjI impI)
  have len: "length nmtx = n" by (rule is_matrix_length [OF assms(1)])
  {
    assume allmax: "list_all (\<lambda>c. c = util_MAX) criteria"
    then have va: "list_all (\<lambda>c. c = util_MAX \<or> c = util_MIN) criteria"
      and nomin: "util_MIN \<notin> set criteria"
      by (auto simp: list_all_iff util_MAX_def util_MIN_def)
    have not1: "np_not (setdiff1d criteria [util_MAX]) = Inr True"
      using nomin by (simp add: setdiff1d_MAX [OF va] np_not_def)
    let ?pts = "np_sum_axis1 (map (map ln) nmtx)"
    have res: "priv_fmf nmtx criteria = Inr (rankdata ?pts True, ?pts)"
      by (simp only: priv_fmf_def np_log_positive [OF assms(2)] not1 Let_def sum.case if_True)
    have "spec_mixed_formula nmtx criteria i = sum_list (map ln (nmtx ! i))" if "i < n" for i
      using log_sum_over_all [OF assms(1,3) that allmax] log_sum_over_none [OF nomin]
      by (simp add: spec_mixed_formula_def)
    then show "\<exists>rnk pts. priv_fmf nmtx criteria = Inr (rnk, pts) \<and> length pts = n \<and>
               (\<forall>i<n. pts ! i = sum_list (map ln (nmtx ! i)) \<and>
                       pts ! i = spec_mixed_formula nmtx criteria i)"
      by (simp add: res len np_sum_axis1_def comp_def)
  }
  {
    assume "list_all (\<lambda>c. c = util_MIN) criteria \<and> 0 < m"
    then have allmin: "list_all (\<lambda>c. c = util_MIN) criteria" and "0 < m" by simp_all
    then have va: "list_all (\<lambda>c. c = util_MAX \<or> c = util_MIN) criteria"
      and nomax: "util_MAX \<notin> set criteria"
      by (auto simp: list_all_iff util_MAX_def util_MIN_def)
    have "criteria \<noteq> []" using \<open>0 < m\<close> assms(3) by auto
    then obtain c where "c \<in> set criteria" by (cases criteria) auto
    with allmin have ismin: "util_MIN \<in> set criteria" by (auto simp: list_all_iff)
    have not1: "np_not (setdiff1d criteria [util_MAX]) = Inr False"
      using ismin by (simp add: setdiff1d_MAX [OF va] np_not_def util_MIN_def)
    have not2: "np_not (setdiff1d criteria [util_MIN]) = Inr True"
      using nomax by (simp add: setdiff1d_MIN [OF va] np_not_def)
    let ?pts = "map (\<lambda>s. 1 - s) (np_sum_axis1 (map (map ln) nmtx))"
    have res: "priv_fmf nmtx criteria = Inr (rankdata ?pts True, ?pts)"
      by (simp only: priv_fmf_def np_log_positive [OF assms(2)] not1 not2 Let_def sum.case
          if_True if_False)
    have mf: "spec_mixed_formula nmtx criteria i = - sum_list (map ln (nmtx ! i))" if "i < n" for i
      using log_sum_over_all [OF assms(1,3) that allmin] log_sum_over_none [OF nomax]
      by (simp add: spec_mixed_formula_def)
    have rk: "rankdata ?pts True = rankdata (map (spec_mixed_formula nmtx criteria) [0..<n]) True"
      by (rule rankdata_cong) (simp_all add: len np_sum_axis1_def mf)
    show "\<exists>rnk pts. priv_fmf nmtx criteria = Inr (rnk, pts) \<and> length pts = n \<and>
               (\<forall>i<n. pts ! i = 1 - sum_list (map ln (nmtx ! i)) \<and>
                       pts ! i = spec_mixed_formula nmtx criteria i + 1) \<and>
               rnk = rankdata (map (spec_mixed_formula nmtx criteria) [0..<n]) True"
    proof (intro exI conjI)
      show "priv_fmf nmtx criteria = Inr (rankdata ?pts True, ?pts)" by (rule res)
      show "length ?pts = n" by (simp add: len np_sum_axis1_def)
      show "\<forall>i<n. ?pts ! i = 1 - sum_list (map ln (nmtx ! i)) \<and>
                  ?pts ! i = spec_mixed_formula nmtx criteria i + 1"
        by (simp add: len np_sum_axis1_def mf)
      show "rankdata ?pts True = rankdata (map (spec_mixed_formula nmtx criteria) [0..<n]) True"
        by (rule rk)
    qed
  }
qed

theorem fmf_special_cases_witness:
  "is_matrix 2 2 ([[1, 2], [3, 4]] :: matrix) \<and> positive [[1, 2], [3, 4]] \<and>
   list_all (\<lambda>c. c = util_MAX) [util_MAX, util_MAX] \<and>
   list_all (\<lambda>c. c = util_MIN) [util_MIN, util_MIN] \<and>
   (\<exists>rnk pts. priv_fmf [[1, 2], [3, 4]] [util_MAX, util_MAX] = Inr (rnk, pts) \<and>
      pts ! 0 = ln 2 \<and> pts ! 0 = spec_mixed_formula [[1, 2], [3, 4]] [util_MAX, util_MAX] 0) \<and>
   (\<exists>rnk pts. priv_fmf [[1, 2], [3, 4]] [util_MIN, util_MIN] = Inr (rnk, pts) \<and>
      pts ! 0 = 1 - ln 2 \<and> pts ! 0 = spec_mixed_formula [[1, 2], [3, 4]] [util_MIN, util_MIN] 0 + 1)"
proof -
  let ?M = "[[1, 2], [3, 4]] :: matrix"
  have h1: "is_matrix 2 2 ?M" by (simp add: is_matrix_def)
  have h2: "positive ?M" by (simp add: positive_def)
  have h3: "length [util_MAX, util_MAX] = 2" and h4: "length [util_MIN, util_MIN] = 2"
    by simp_all
  have a: "list_all (\<lambda>c. c = util_MAX) [util_MAX, util_MAX]"
    and b: "list_all (\<lambda>c. c = util_MIN) [util_MIN, util_MIN]" by simp_all
  have c: "(0::nat) < 2" by simp
  from fmf_special_cases [OF h1 h2 h3] a obtain rnk pts
    where r: "priv_fmf ?M [util_MAX, util_MAX] = Inr (rnk, pts)"
      and p: "\<forall>i<2. pts ! i = sum_list (map ln (?M ! i)) \<and>
                      pts ! i = spec_mixed_formula ?M [util_MAX, util_MAX] i"
    by blast
  from fmf_special_cases [OF h1 h2 h4] b c obtain rnk' pts'
    where r': "priv_fmf ?M [util_MIN, util_MIN] = Inr (rnk', pts')"
      and p': "\<forall>i<2. pts' ! i = 1 - sum_list (map ln (?M ! i)) \<and>
                      pts' ! i = spec_mixed_formula ?M [util_MIN, util_MIN] i + 1"
    by blast
  from p have "pts ! 0 = sum_list (map ln (?M ! 0)) \<and>
      pts ! 0 = spec_mixed_formula ?M [util_MAX, util_MAX] 0"
    by (rule allE [where x = 0]) simp
  then have q: "pts ! 0 = ln 2 \<and> pts ! 0 = spec_mixed_formula ?M [util_MAX, util_MAX] 0"
    by simp
  from p' have "pts' ! 0 = 1 - sum_list (map ln (?M ! 0)) \<and>
      pts' ! 0 = spec_mixed_formula ?M [util_MIN, util_MIN] 0 + 1"
    by (rule allE [where x = 0]) simp
  then have q': "pts' ! 0 = 1 - ln 2 \<and> pts' ! 0 = spec_mixed_formula ?M [util_MIN, util_MIN] 0 + 1"
    by simp
  from h1 h2 a b r q r' q' show ?thesis by blast
qed

text \<open>
  With all criteria MIN the scores are not those of the general formula: for the matrix of
  the single entry 1 the score is 1, and the general formula gives 0.
\<close>

theorem fmf_all_min_counterexample:
  "priv_fmf [[1]] [util_MIN] = Inr ([0], [1]) \<and> spec_mixed_formula [[1]] [util_MIN] 0 = 0"
  by (simp add: priv_fmf_def np_log_def setdiff1d_def np_not_def util_MAX_def util_MIN_def
      np_sum_axis1_def rankdata_def precedes_def spec_mixed_formula_def log_sum_over_def)

subsection \<open>The direction of the ranks\<close>

lemma length_rankdata: "length (rankdata arr r) = length arr"
  by (simp add: rankdata_def)

lemma rankdata_zero_iff:
  "i < length arr \<Longrightarrow>
   rankdata arr r ! i = 0 \<longleftrightarrow> (\<forall>j<length arr. \<not> precedes arr r j i)"
  by (auto simp: rankdata_def filter_empty_conv)

lemma rankdata_ascending_zero:
  assumes "i < length arr"
  shows "rankdata arr False ! i = 0 \<longleftrightarrow>
           (\<forall>j<length arr. arr ! i \<le> arr ! j) \<and> (\<forall>j<i. arr ! j \<noteq> arr ! i)"
  unfolding rankdata_zero_iff [OF assms] precedes_def
  using assms by (auto simp: not_less) (metis less_trans not_less)

lemma rankdata_descending_zero:
  assumes "i < length arr"
  shows "rankdata arr True ! i = 0 \<longleftrightarrow>
           (\<forall>j<length arr. arr ! j \<le> arr ! i) \<and> (\<forall>j<i. arr ! j \<noteq> arr ! i)"
  unfolding rankdata_zero_iff [OF assms] precedes_def
  using assms by (auto simp: not_less) (metis less_trans not_less)

lemma rankdata_has_zero:
  assumes "arr \<noteq> []"
  shows "\<exists>i<length arr. rankdata arr r ! i = 0"
proof -
  define v where "v = (if r then Max (set arr) else Min (set arr))"
  have "v \<in> set arr" using assms by (simp add: v_def)
  then obtain k where k: "k < length arr \<and> arr ! k = v" by (auto simp: in_set_conv_nth)
  define i where "i = (LEAST k. k < length arr \<and> arr ! k = v)"
  have i: "i < length arr \<and> arr ! i = v" unfolding i_def by (rule LeastI [of _ k]) (rule k)
  have least: "\<not> (j < length arr \<and> arr ! j = v)" if "j < i" for j
    using that unfolding i_def by (rule not_less_Least)
  have "\<not> precedes arr r j i" if "j < length arr" for j
  proof (cases r)
    case True
    have "arr ! j \<le> v" using that assms by (simp add: v_def True)
    then show ?thesis using i least [of j] that by (auto simp: precedes_def True)
  next
    case False
    have "v \<le> arr ! j" using that assms by (simp add: v_def False)
    then show ?thesis using i least [of j] that by (auto simp: precedes_def False)
  qed
  then show ?thesis using i by (auto simp: rankdata_zero_iff)
qed

lemma length_filter_mono:
  "\<forall>x\<in>set xs. P x \<longrightarrow> Q x \<Longrightarrow> length (filter P xs) \<le> length (filter Q xs)"
  by (induction xs) auto

lemma length_filter_less:
  assumes "\<And>x. x \<in> set xs \<Longrightarrow> P x \<Longrightarrow> Q x" and "y \<in> set xs" and "Q y" and "\<not> P y"
  shows "length (filter P xs) < length (filter Q xs)"
  using assms
proof (induction xs)
  case Nil
  then show ?case by simp
next
  case (Cons x xs)
  have le: "length (filter P xs) \<le> length (filter Q xs)"
    using Cons.prems(1) by (intro length_filter_mono) auto
  show ?case
  proof (cases "x = y")
    case True
    then show ?thesis using le Cons.prems by auto
  next
    case False
    then have "y \<in> set xs" using Cons.prems(2) by simp
    from Cons.IH [OF _ this Cons.prems(3,4)] Cons.prems(1) show ?thesis by auto
  qed
qed

lemma rankdata_descending_mono:
  assumes "a < length arr" and "b < length arr" and "arr ! b < arr ! a"
  shows "rankdata arr True ! a < rankdata arr True ! b"
proof -
  have "length (filter (\<lambda>j. precedes arr True j a) [0..<length arr])
      < length (filter (\<lambda>j. precedes arr True j b) [0..<length arr])"
  proof (rule length_filter_less [where y = a])
    show "precedes arr True x b" if "precedes arr True x a" for x
      using that assms(3) by (auto simp: precedes_def)
    show "a \<in> set [0..<length arr]" using assms(1) by simp
    show "precedes arr True a b" using assms(3) by (simp add: precedes_def)
    show "\<not> precedes arr True a a" by (simp add: precedes_def)
  qed
  then show ?thesis using assms(1,2) by (simp add: rankdata_def)
qed

lemma priv_refpoint_rank:
  "priv_refpoint nmtx criteria weights = Inr (rnk, pts) \<Longrightarrow> rnk = rankdata pts False"
  by (auto simp: priv_refpoint_def Let_def split: sum.splits)

lemma priv_ratio_rank:
  "priv_ratio nmtx criteria nweights = Inr (rnk, pts) \<Longrightarrow> rnk = rankdata pts True"
  by (auto simp: priv_ratio_def Let_def split: sum.splits)

lemma priv_fmf_rank:
  "priv_fmf nmtx criteria = Inr (rnk, pts) \<Longrightarrow> rnk = rankdata pts True"
  by (auto simp: priv_fmf_def Let_def split: sum.splits if_splits)

text \<open>Evaluation of the operations on concrete inputs.\<close>

lemma upt_0_2: "[0..<2] = [0, 1]" by (simp add: upt_rec)
lemma upt_0_3: "[0..<3] = [0, 1, 2]" by (simp add: upt_rec)

lemmas eval_defs = priv_refpoint_def priv_ratio_def priv_fmf_def np_max_axis0_def np_min_axis0_def
  np_max_axis1_def broadcast_def weights_times_matrix_def weights_times_vector_def np_inner_def
  ncols_def col_def util_MAX_def util_MIN_def rankdata_def precedes_def np_log_def setdiff1d_def
  np_not_def argwhere_eq_def np_delete_cols_def np_sum_axis1_def upt_0_2 upt_0_3

text \<open>
  Claim C1. Whenever \<open>_refpoint\<close> returns ranks and scores, the ranks are ascending: some
  alternative has rank 0 (when there is an alternative), and the alternative with rank 0
  is the one with the smallest score, the first of them by position among equal scores.
  Whenever \<open>_ratio\<close> or \<open>_fmf\<close> returns ranks and scores, the ranks are descending: the
  alternative with rank 0 is the one with the largest score, the first of them by
  position among equal scores.
\<close>

theorem rank_directions:
  "(priv_refpoint nmtx criteria weights = Inr (rnk, pts) \<longrightarrow>
      length rnk = length pts \<and>
      (pts \<noteq> [] \<longrightarrow> (\<exists>i<length pts. rnk ! i = 0)) \<and>
      (\<forall>i<length pts. rnk ! i = 0 \<longleftrightarrow>
          (\<forall>j<length pts. pts ! i \<le> pts ! j) \<and> (\<forall>j<i. pts ! j \<noteq> pts ! i))) \<and>
   (priv_ratio nmtx criteria weights = Inr (rnk, pts) \<or> priv_fmf nmtx criteria = Inr (rnk, pts) \<longrightarrow>
      length rnk = length pts \<and>
      (pts \<noteq> [] \<longrightarrow> (\<exists>i<length pts. rnk ! i = 0)) \<and>
      (\<forall>i<length pts. rnk ! i = 0 \<longleftrightarrow>
          (\<forall>j<length pts. pts ! j \<le> pts ! i) \<and> (\<forall>j<i. pts ! j \<noteq> pts ! i)))"
proof (intro conjI impI)
  assume "priv_refpoint nmtx criteria weights = Inr (rnk, pts)"
  then have rk: "rnk = rankdata pts False" by (rule priv_refpoint_rank)
  show "length rnk = length pts" by (simp add: rk length_rankdata)
  show "\<exists>i<length pts. rnk ! i = 0" if "pts \<noteq> []"
    unfolding rk by (rule rankdata_has_zero [OF that])
  show "\<forall>i<length pts. rnk ! i = 0 \<longleftrightarrow>
          (\<forall>j<length pts. pts ! i \<le> pts ! j) \<and> (\<forall>j<i. pts ! j \<noteq> pts ! i)"
    unfolding rk using rankdata_ascending_zero by blast
next
  assume "priv_ratio nmtx criteria weights = Inr (rnk, pts) \<or> priv_fmf nmtx criteria = Inr (rnk, pts)"
  then have rk: "rnk = rankdata pts True"
    using priv_ratio_rank priv_fmf_rank by blast
  show "length rnk = length pts" by (simp add: rk length_rankdata)
  show "\<exists>i<length pts. rnk ! i = 0" if "pts \<noteq> []"
    unfolding rk by (rule rankdata_has_zero [OF that])
  show "\<forall>i<length pts. rnk ! i = 0 \<longleftrightarrow>
          (\<forall>j<length pts. pts ! j \<le> pts ! i) \<and> (\<forall>j<i. pts ! j \<noteq> pts ! i)"
    unfolding rk using rankdata_descending_zero by blast
qed


theorem rank_directions_witness:
  "priv_refpoint [[1, 2, 3], [1, 1, 4], [2, 0, 1]] [1, - 1, 1] (Scalar 1)
     = Inr ([1, 0, 2], [2, 1, 3]) \<and>
   priv_ratio [[1, 2, 3], [1, 1, 4], [2, 0, 1]] [1, - 1, 1] (Scalar 1)
     = Inr ([2, 0, 1], [2, 4, 3]) \<and>
   priv_fmf [[1, 1], [2, 1]] [1, 1] = Inr ([1, 0], [0, ln 2]) \<and>
   (\<exists>i. i < length [2, 1, 3 :: real] \<and> [1, 0, 2 :: nat] ! i = 0) \<and>
   (\<exists>i. i < length [2, 4, 3 :: real] \<and> [2, 0, 1 :: nat] ! i = 0) \<and>
   (\<exists>i. i < length [0, ln 2 :: real] \<and> [1, 0 :: nat] ! i = 0)"
proof -
  let ?M = "[[1, 2, 3], [1, 1, 4], [2, 0, 1]] :: matrix"
  let ?c = "[1, - 1, 1] :: int list"
  have e1: "priv_refpoint ?M ?c (Scalar 1) = Inr ([1, 0, 2], [2, 1, 3])"
    by (simp add: eval_defs)
  have e2: "priv_ratio ?M ?c (Scalar 1) = Inr ([2, 0, 1], [2, 4, 3])"
    by (simp add: eval_defs)
  have e3: "priv_fmf [[1, 1], [2, 1]] [1, 1] = Inr ([1, 0], [0, ln 2])"
    by (simp add: eval_defs)
  have a: "\<exists>i. i < length [2, 1, 3 :: real] \<and> [1, 0, 2 :: nat] ! i = 0"
    using rank_directions [of ?M ?c "Scalar 1" "[1, 0, 2]" "[2, 1, 3]"] e1 by blast
  have b: "\<exists>i. i < length [2, 4, 3 :: real] \<and> [2, 0, 1 :: nat] ! i = 0"
    using rank_directions [of ?M ?c "Scalar 1" "[2, 0, 1]" "[2, 4, 3]"] e2 by blast
  have c: "\<exists>i. i < length [0, ln 2 :: real] \<and> [1, 0 :: nat] ! i = 0"
    using rank_directions [of "[[1, 1], [2, 1]]" "[1, 1]" "Scalar 1" "[1, 0]" "[0, ln 2]"] e3
    by blast
  from e1 e2 e3 a b c show ?thesis by blast
qed

subsection \<open>Multi-MOORA\<close>

lemma award_winner:
  "award d rm pts p = pts[winner d rm p := pts ! winner d rm p + 1]"
  by (cases p) (simp add: award_def winner_def Let_def)

lemma length_award: "length (award d rm pts p) = length pts"
  by (simp add: award_winner)

lemma length_foldl_award: "length (foldl (award d rm) pts ps) = length pts"
  by (induction ps arbitrary: pts) (simp_all add: length_award)

lemma foldl_award_nth:
  "k < length pts \<Longrightarrow>
   foldl (award d rm) pts ps ! k = pts ! k + real (length (filter (\<lambda>p. winner d rm p = k) ps))"
proof (induction ps arbitrary: pts)
  case Nil
  then show ?case by simp
next
  case (Cons p ps)
  have "k < length (award d rm pts p)" using Cons.prems by (simp add: length_award)
  from Cons.IH [OF this] show ?case
    using Cons.prems by (auto simp: award_winner nth_list_update)
qed

lemma sum_list_bump:
  "i < length (xs :: real list) \<Longrightarrow> sum_list (xs[i := xs ! i + 1]) = sum_list xs + 1"
proof (induction xs arbitrary: i)
  case Nil
  then show ?case by simp
next
  case (Cons x xs)
  then show ?case by (cases i) simp_all
qed

lemma sum_list_foldl_award:
  "\<forall>p\<in>set ps. winner d rm p < length pts \<Longrightarrow>
   sum_list (foldl (award d rm) pts ps) = sum_list pts + real (length ps)"
proof (induction ps arbitrary: pts)
  case Nil
  then show ?case by simp
next
  case (Cons p ps)
  have "\<forall>q\<in>set ps. winner d rm q < length (award d rm pts p)"
    using Cons.prems by (simp add: length_award)
  from Cons.IH [OF this] show ?case
    using Cons.prems by (simp add: award_winner sum_list_bump)
qed

lemma set_combinations2: "set (combinations2 n) = {(i, j). i < j \<and> j < n}"
  by (fastforce simp: combinations2_def)

lemma length_combinations2: "length (combinations2 n) = n * (n - 1) div 2"
proof -
  have "length (combinations2 n) = (\<Sum>i<n. n - Suc i)"
    by (simp add: combinations2_def length_concat comp_def sum_list_sum_nth atLeast0LessThan)
  also have "\<dots> = (\<Sum>i<n. i)"
    by (rule sum.nat_diff_reindex)
  also have "\<dots> = n * (n - 1) div 2"
    using Sum_Ico_nat [of 0 n] by (simp add: atLeast0LessThan)
  finally show ?thesis .
qed


lemma length_filter_concat:
  "length (filter P (concat xss)) = sum_list (map (\<lambda>xs. length (filter P xs)) xss)"
  by (induction xss) simp_all

lemma sum_list_indicator:
  "sum_list (map (\<lambda>x. if P x then 1 else 0) xs) = length (filter P xs)"
  by (induction xs) simp_all

lemma sum_list_zero: "(\<And>x. x \<in> set xs \<Longrightarrow> f x = (0::nat)) \<Longrightarrow> sum_list (map f xs) = 0"
  by (induction xs) simp_all

lemma length_filter_eq_upt:
  "length (filter (\<lambda>j. j = k \<and> Q) [a..<b]) = (if a \<le> k \<and> k < b \<and> Q then 1 else 0)"
proof -
  have "{j. j = k \<and> Q} \<inter> set [a..<b] = (if a \<le> k \<and> k < b \<and> Q then {k} else {})"
    by auto
  then show ?thesis
    using distinct_length_filter [of "[a..<b]" "\<lambda>j. j = k \<and> Q"] by simp
qed

lemma count_winner:
  assumes "k < n"
  shows "length (filter (\<lambda>p. winner d rm p = k) (combinations2 n)) =
           length (filter (\<lambda>j. 0 < d (rm ! k) (rm ! j)) [Suc k..<n])
         + length (filter (\<lambda>i. \<not> 0 < d (rm ! i) (rm ! k)) [0..<k])"
proof -
  let ?g = "\<lambda>i. length (filter (\<lambda>j. winner d rm (i, j) = k) [Suc i..<n])"
  have split: "[0..<n] = [0..<k] @ k # [Suc k..<n]"
    using assms by (metis le_add_diff_inverse less_imp_le_nat upt_add_eq_append upt_conv_Cons zero_le)
  have low: "?g i = (if \<not> 0 < d (rm ! i) (rm ! k) then 1 else 0)" if "i \<in> set [0..<k]" for i
  proof -
    have "i < k" using that by simp
    then have "filter (\<lambda>j. winner d rm (i, j) = k) [Suc i..<n] =
               filter (\<lambda>j. j = k \<and> \<not> 0 < d (rm ! i) (rm ! k)) [Suc i..<n]"
      by (intro filter_cong) (auto simp: winner_def)
    then show ?thesis
      using \<open>i < k\<close> assms by (simp add: length_filter_eq_upt)
  qed
  have mid: "?g k = length (filter (\<lambda>j. 0 < d (rm ! k) (rm ! j)) [Suc k..<n])"
    by (intro arg_cong [where f = length] filter_cong) (auto simp: winner_def)
  have high: "?g i = 0" if "i \<in> set [Suc k..<n]" for i
    using that by (auto simp: winner_def filter_empty_conv)
  have "length (filter (\<lambda>p. winner d rm p = k) (combinations2 n)) = sum_list (map ?g [0..<n])"
    by (simp add: combinations2_def length_filter_concat comp_def filter_map)
  also have "\<dots> = sum_list (map ?g [0..<k]) + ?g k + sum_list (map ?g [Suc k..<n])"
    by (subst split) simp
  also have "sum_list (map ?g [Suc k..<n]) = 0"
    by (rule sum_list_zero) (rule high)
  also have "sum_list (map ?g [0..<k]) =
      sum_list (map (\<lambda>i. if \<not> 0 < d (rm ! i) (rm ! k) then 1 else 0) [0..<k])"
    using low by (intro arg_cong [where f = sum_list] map_cong) auto
  finally show ?thesis
    by (simp add: mid sum_list_indicator)
qed

lemma tally_nth:
  assumes "k < length rm"
  shows "tally d rm ! k =
           real (length (filter (\<lambda>j. 0 < d (rm ! k) (rm ! j)) [Suc k..<length rm])
               + length (filter (\<lambda>i. \<not> 0 < d (rm ! i) (rm ! k)) [0..<k]))"
  using assms by (simp add: tally_def Let_def foldl_award_nth count_winner)

lemma winner_in_range: "p \<in> set (combinations2 n) \<Longrightarrow> winner d rm p < n"
  by (auto simp: set_combinations2 winner_def)

lemma length_tally: "length (tally d rm) = length rm"
  by (simp add: tally_def Let_def length_foldl_award)

lemma sum_list_tally: "sum_list (tally d rm) = real (length rm * (length rm - 1) div 2)"
  using sum_list_foldl_award [of "combinations2 (length rm)" d rm "replicate (length rm) 0"]
  by (simp add: tally_def Let_def winner_in_range length_combinations2 sum_list_replicate)


lemma priv_ratio_length:
  "priv_ratio nmtx criteria w = Inr (rnk, pts) \<Longrightarrow> length pts = length nmtx"
  by (auto simp: priv_ratio_def np_inner_def Let_def split: sum.splits if_splits)

lemma broadcast_rows_length: "broadcast_rows f M ys = Inr M' \<Longrightarrow> length M' = length M"
  by (induction M arbitrary: M') (auto split: sum.splits)

lemma weights_times_matrix_length: "weights_times_matrix w M = Inr M' \<Longrightarrow> length M' = length M"
  by (cases w) (auto simp: weights_times_matrix_def dest: broadcast_rows_length)

lemma priv_refpoint_length:
  assumes "priv_refpoint nmtx criteria w = Inr (rnk, pts)"
  shows "length pts = length nmtx"
proof -
  from assms obtain rpoints diff wdiff
    where "broadcast_rows (\<lambda>x r. x - r) nmtx rpoints = Inr diff"
      and "weights_times_matrix w diff = Inr wdiff"
      and "np_max_axis1 (map (map abs) wdiff) = Inr pts"
    by (auto simp: priv_refpoint_def Let_def split: sum.splits)
  then show ?thesis
    by (auto simp: np_max_axis1_def split: if_splits
        dest!: broadcast_rows_length weights_times_matrix_length)
qed

lemma np_delete_cols_length: "np_delete_cols M idxs = Inr M' \<Longrightarrow> length M' = length M"
  by (auto simp: np_delete_cols_def split: if_splits)

lemma priv_fmf_length:
  "priv_fmf nmtx criteria = Inr (rnk, pts) \<Longrightarrow> length pts = length nmtx"
  by (auto simp: priv_fmf_def np_log_def np_sum_axis1_def Let_def
      split: sum.splits if_splits dest!: np_delete_cols_length)

lemma multimoora_rank:
  "multimoora mnorm mtx criteria = Inr (rnk, rank_mtx) \<Longrightarrow>
   rnk = rankdata (tally dominance rank_mtx) True"
  by (auto simp: multimoora_def Let_def split: sum.splits prod.splits)

lemma transpose3:
  assumes "length a = n" and "length b = n" and "length c = n"
  shows "transpose [a, b, c] = map (\<lambda>i. [a ! i, b ! i, c ! i]) [0..<n]"
proof -
  have "transpose [a, b, c] = map (\<lambda>i. map (\<lambda>j. [a, b, c] ! j ! i) [0..<length [a, b, c]]) [0..<n]"
    by (rule transpose_rectangle) (use assms in \<open>auto simp: nth_Cons' \<close>)
  then show ?thesis by (simp add: upt_0_3)
qed

lemma tally_example: "tally dominance [[Suc 0, Suc 0, Suc 0], [0, 0, 0]] = [0, 1]"
  by code_simp

lemma rankdata_example: "rankdata [0, 1] True = [Suc 0, 0]"
  by code_simp

lemma sqrt_25: "sqrt 25 = 5"
  by (rule real_sqrt_unique) simp_all

lemma vector_example: "vector [[3], [4]] = Inr [[3 / 5], [4 / 5]]"
  by (simp add: vector_def ncols_def col_def sqrt_25)

lemma fmf_example: "priv_fmf [[3 / 5], [4 / 5]] [1] = Inr ([1, 0], [ln (3 / 5), ln (4 / 5)])"
  by (simp add: eval_defs)

lemma ratio_example: "priv_ratio [[3 / 5], [4 / 5]] [1] (Scalar 1) = Inr ([1, 0], [3 / 5, 4 / 5])"
  by (simp add: eval_defs)

lemma refpoint_example: "priv_refpoint [[3 / 5], [4 / 5]] [1] (Scalar 1) = Inr ([1, 0], [1 / 5, 0])"
  by (simp add: eval_defs)

lemma multimoora_example: "multimoora vector [[3], [4]] [1] = Inr ([1, 0], [[1, 1, 1], [0, 0, 0]])"
  by (simp add: multimoora_def vector_example criteriarr_def util_MAX_def ratio_example
      refpoint_example fmf_example tally_example rankdata_example Let_def)


lemma vector_length: "vector M = Inr N \<Longrightarrow> length N = length M"
  by (auto simp: vector_def Let_def split: if_splits)

text \<open>
  Claim C2. Whenever \<open>multimoora\<close> returns, its final rank vector is \<open>rankdata\<close> with
  \<open>reverse=True\<close> of a points tally, so that an alternative with more points has a lower
  rank; in the tally, alternative k holds one point for every
  pair (k, j) with k < j whose dominance value is strictly positive, and one point for
  every pair (i, k) with i < k whose dominance value is not positive: each pair awards
  exactly one point, to its lower index on a positive dominance value and to its higher
  index otherwise.
\<close>

theorem multimoora_tally:
  assumes "multimoora mnorm mtx criteria = Inr (rnk, rank_mtx)"
  shows "\<exists>points. length points = length rank_mtx \<and> rnk = rankdata points True \<and>
           (\<forall>a<length rank_mtx. \<forall>b<length rank_mtx. points ! b < points ! a \<longrightarrow> rnk ! a < rnk ! b) \<and>
           (\<forall>k<length rank_mtx. points ! k =
              real (length (filter (\<lambda>j. 0 < dominance (rank_mtx ! k) (rank_mtx ! j))
                              [Suc k..<length rank_mtx])
                  + length (filter (\<lambda>i. \<not> 0 < dominance (rank_mtx ! i) (rank_mtx ! k)) [0..<k])))"
proof (intro exI conjI)
  show "length (tally dominance rank_mtx) = length rank_mtx" by (rule length_tally)
  show rk: "rnk = rankdata (tally dominance rank_mtx) True" by (rule multimoora_rank [OF assms])
  show "\<forall>a<length rank_mtx. \<forall>b<length rank_mtx.
          tally dominance rank_mtx ! b < tally dominance rank_mtx ! a \<longrightarrow> rnk ! a < rnk ! b"
    unfolding rk using rankdata_descending_mono [of _ "tally dominance rank_mtx"]
    by (simp add: length_tally)
  show "\<forall>k<length rank_mtx. tally dominance rank_mtx ! k =
              real (length (filter (\<lambda>j. 0 < dominance (rank_mtx ! k) (rank_mtx ! j))
                              [Suc k..<length rank_mtx])
                  + length (filter (\<lambda>i. \<not> 0 < dominance (rank_mtx ! i) (rank_mtx ! k)) [0..<k]))"
    using tally_nth by blast
qed

theorem multimoora_tally_witness:
  "multimoora vector [[3], [4]] [1] = Inr ([1, 0], [[1, 1, 1], [0, 0, 0]]) \<and>
   (\<exists>points. [1, 0] = rankdata points True \<and> points ! 0 = 0 \<and> points ! 1 = 1)"
proof -
  let ?rm = "[[1, 1, 1], [0, 0, 0]] :: nat list list"
  from multimoora_tally [OF multimoora_example] obtain points
    where r: "[1, 0] = rankdata points True"
      and p: "\<forall>k<length ?rm. points ! k =
              real (length (filter (\<lambda>j. 0 < dominance (?rm ! k) (?rm ! j)) [Suc k..<length ?rm])
                  + length (filter (\<lambda>i. \<not> 0 < dominance (?rm ! i) (?rm ! k)) [0..<k]))"
    by blast
  from p have "points ! 0 = real (length (filter (\<lambda>j. 0 < dominance (?rm ! 0) (?rm ! j)) [Suc 0..<length ?rm])
                  + length (filter (\<lambda>i. \<not> 0 < dominance (?rm ! i) (?rm ! 0)) [0..<0]))"
    by (rule allE [where x = 0]) simp
  then have p0: "points ! 0 = 0" by (simp add: dominance_def)
  from p have "points ! 1 = real (length (filter (\<lambda>j. 0 < dominance (?rm ! 1) (?rm ! j)) [Suc 1..<length ?rm])
                  + length (filter (\<lambda>i. \<not> 0 < dominance (?rm ! i) (?rm ! 1)) [0..<1]))"
    by (rule allE [where x = 1]) simp
  then have q1: "points ! 1 = 1" by (simp add: dominance_def)
  from multimoora_example r p0 q1 show ?thesis by blast
qed

text \<open>
  Claim C10. For a rank matrix of n alternatives and any dominance function, the loop of
  \<open>multimoora\<close> yields n points; each is a natural number, their sum is n * (n - 1) / 2, and
  for a single alternative the tally is [0].
\<close>

theorem tally_total:
  "length (tally domfun rank_mtx) = length rank_mtx \<and>
   (\<forall>k<length rank_mtx. \<exists>c::nat. tally domfun rank_mtx ! k = real c) \<and>
   sum_list (tally domfun rank_mtx) = real (length rank_mtx * (length rank_mtx - 1) div 2) \<and>
   tally domfun [r] = [0]"
proof (intro conjI)
  show "length (tally domfun rank_mtx) = length rank_mtx" by (rule length_tally)
  show "\<forall>k<length rank_mtx. \<exists>c::nat. tally domfun rank_mtx ! k = real c"
    using tally_nth by blast
  show "sum_list (tally domfun rank_mtx) = real (length rank_mtx * (length rank_mtx - 1) div 2)"
    by (rule sum_list_tally)
  show "tally domfun [r] = [0]"
    by (simp add: tally_def combinations2_def)
qed

theorem tally_total_witness:
  "length (tally dominance [[0, 0, 0], [0, 0, 0], [1, 1, 1]]) = 3 \<and>
   sum_list (tally dominance [[0, 0, 0], [0, 0, 0], [1, 1, 1]]) = 3 \<and>
   (\<exists>c::nat. tally dominance [[0, 0, 0], [0, 0, 0], [1, 1, 1]] ! 2 = real c)"
  using tally_total [of dominance "[[0, 0, 0], [0, 0, 0], [1, 1, 1]]"]
  by simp

text \<open>
  Claim C7. Whenever \<open>multimoora\<close> returns, with a normalization that keeps the number of
  rows: the matrix is normalized once, \<open>_ratio\<close>, \<open>_refpoint\<close> and \<open>_fmf\<close> have run on that
  one normalized matrix, the first two with the scalar weight 1, and the rank matrix has
  one row for each alternative, which holds the alternative's ratio rank, reference point
  rank and full multiplicative form rank, in this order.
\<close>

theorem multimoora_rank_matrix:
  assumes "multimoora mnorm mtx criteria = Inr (rnk, rank_mtx)"
    and "\<forall>M N. mnorm M = Inr N \<longrightarrow> length N = length M"
  shows "\<exists>nmtx ncriteria ratio_rank ratio_points refpoint_rank refpoint_points fmf_rank fmf_points.
           mnorm mtx = Inr nmtx \<and> criteriarr criteria = Inr ncriteria \<and>
           priv_ratio nmtx ncriteria (Scalar 1) = Inr (ratio_rank, ratio_points) \<and>
           priv_refpoint nmtx ncriteria (Scalar 1) = Inr (refpoint_rank, refpoint_points) \<and>
           priv_fmf nmtx ncriteria = Inr (fmf_rank, fmf_points) \<and>
           length rank_mtx = length mtx \<and>
           (\<forall>i<length mtx. rank_mtx ! i = [ratio_rank ! i, refpoint_rank ! i, fmf_rank ! i])"
proof -
  from assms(1) obtain nmtx ncriteria ratio_rank ratio_points refpoint_rank refpoint_points
      fmf_rank fmf_points
    where n: "mnorm mtx = Inr nmtx" and c: "criteriarr criteria = Inr ncriteria"
      and r: "priv_ratio nmtx ncriteria (Scalar 1) = Inr (ratio_rank, ratio_points)"
      and p: "priv_refpoint nmtx ncriteria (Scalar 1) = Inr (refpoint_rank, refpoint_points)"
      and f: "priv_fmf nmtx ncriteria = Inr (fmf_rank, fmf_points)"
      and m: "rank_mtx = transpose [ratio_rank, refpoint_rank, fmf_rank]"
    by (auto simp: multimoora_def Let_def split: sum.splits prod.splits)
  have len: "length nmtx = length mtx" using assms(2) n by blast
  have "length ratio_rank = length mtx"
    using priv_ratio_rank [OF r] priv_ratio_length [OF r] len by (simp add: length_rankdata)
  moreover have "length refpoint_rank = length mtx"
    using priv_refpoint_rank [OF p] priv_refpoint_length [OF p] len by (simp add: length_rankdata)
  moreover have "length fmf_rank = length mtx"
    using priv_fmf_rank [OF f] priv_fmf_length [OF f] len by (simp add: length_rankdata)
  ultimately have "rank_mtx = map (\<lambda>i. [ratio_rank ! i, refpoint_rank ! i, fmf_rank ! i]) [0..<length mtx]"
    unfolding m by (rule transpose3)
  then have "length rank_mtx = length mtx \<and>
      (\<forall>i<length mtx. rank_mtx ! i = [ratio_rank ! i, refpoint_rank ! i, fmf_rank ! i])"
    by simp
  with n c r p f show ?thesis by blast
qed

theorem multimoora_rank_matrix_witness:
  "multimoora vector [[3], [4]] [1] = Inr ([1, 0], [[1, 1, 1], [0, 0, 0]]) \<and>
   (\<exists>ratio_rank ratio_points refpoint_rank refpoint_points fmf_rank fmf_points.
      priv_ratio [[3 / 5], [4 / 5]] [1] (Scalar 1) = Inr (ratio_rank, ratio_points) \<and>
      priv_refpoint [[3 / 5], [4 / 5]] [1] (Scalar 1) = Inr (refpoint_rank, refpoint_points) \<and>
      priv_fmf [[3 / 5], [4 / 5]] [1] = Inr (fmf_rank, fmf_points) \<and>
      [[1, 1, 1], [0, 0, 0]] ! 1 = [ratio_rank ! 1, refpoint_rank ! 1, fmf_rank ! 1])"
proof -
  let ?rm = "[[1, 1, 1], [0, 0, 0]] :: nat list list"
  have h: "\<forall>M N. vector M = Inr N \<longrightarrow> length N = length M"
    using vector_length by blast
  from multimoora_rank_matrix [OF multimoora_example h] obtain nmtx ncriteria ratio_rank ratio_points
      refpoint_rank refpoint_points fmf_rank fmf_points
    where n: "vector [[3], [4]] = Inr nmtx" and c: "criteriarr [1] = Inr ncriteria"
      and r: "priv_ratio nmtx ncriteria (Scalar 1) = Inr (ratio_rank, ratio_points)"
      and p: "priv_refpoint nmtx ncriteria (Scalar 1) = Inr (refpoint_rank, refpoint_points)"
      and f: "priv_fmf nmtx ncriteria = Inr (fmf_rank, fmf_points)"
      and m: "\<forall>i<length [[3], [4 :: real]]. ?rm ! i = [ratio_rank ! i, refpoint_rank ! i, fmf_rank ! i]"
    by blast
  from n have n': "nmtx = [[3 / 5], [4 / 5]]" by (simp add: vector_example)
  from c have c': "ncriteria = [1]" by (simp add: criteriarr_def util_MAX_def)
  from m have "?rm ! 1 = [ratio_rank ! 1, refpoint_rank ! 1, fmf_rank ! 1]"
    by (rule allE [where x = 1]) simp
  with multimoora_example r p f show ?thesis unfolding n' c' by blast
qed

subsection \<open>The entries that reach the logarithm\<close>

lemma is_matrix_entries:
  "is_matrix n m M \<Longrightarrow> positive M \<longleftrightarrow> (\<forall>i<n. \<forall>j<m. 0 < M ! i ! j)"
  by (auto simp: is_matrix_def positive_def list_all_length)

lemma shift_cols_matrix:
  "is_matrix n m M \<Longrightarrow> length ds = m \<Longrightarrow> is_matrix n m (map (\<lambda>r. map2 f r ds) M)"
  by (auto simp: is_matrix_def list_all_iff)

lemma shift_cols_entry:
  "is_matrix n m M \<Longrightarrow> length ds = m \<Longrightarrow> i < n \<Longrightarrow> j < m \<Longrightarrow>
   map (\<lambda>r. map2 f r ds) M ! i ! j = f (M ! i ! j) (ds ! j)"
  by (auto simp: is_matrix_def list_all_length)

lemma col_member: "i < length M \<Longrightarrow> M ! i ! j \<in> set (col M j)"
  by (auto simp: col_def)

lemma col_Min_le: "i < length M \<Longrightarrow> Min (set (col M j)) \<le> M ! i ! j"
  by (rule Min_le) (simp_all add: col_member)

lemma col_Min_entry: "M \<noteq> [] \<Longrightarrow> \<exists>i<length M. Min (set (col M j)) = M ! i ! j"
proof -
  assume "M \<noteq> []"
  then have "Min (set (col M j)) \<in> set (col M j)" by (intro Min_in) (simp_all add: col_def)
  then show ?thesis by (auto simp: col_def in_set_conv_nth)
qed

lemma push_negatives_matrix: "is_matrix n m M \<Longrightarrow> is_matrix n m (push_negatives M)"
  by (simp add: push_negatives_def Let_def shift_cols_matrix is_matrix_ncols)

lemma push_negatives_nonneg:
  assumes "is_matrix n m M" and "i < n" and "j < m"
  shows "0 \<le> push_negatives M ! i ! j"
proof -
  have "Min (set (col M j)) \<le> M ! i ! j"
    using assms(1,2) by (intro col_Min_le) (simp add: is_matrix_def)
  then show ?thesis
    using assms by (simp add: push_negatives_def Let_def is_matrix_ncols shift_cols_entry)
qed

lemma add1to0_matrix: "is_matrix n m M \<Longrightarrow> is_matrix n m (add1to0 M)"
  by (simp add: add1to0_def Let_def shift_cols_matrix is_matrix_ncols)

lemma add1to0_positive:
  assumes "is_matrix n m M" and "\<forall>i<n. \<forall>j<m. 0 \<le> M ! i ! j" and "i < n" and "j < m"
  shows "0 < add1to0 M ! i ! j"
proof -
  have len: "length M = n" and ne: "M \<noteq> []" using assms(1) by (auto simp: is_matrix_def)
  have le: "Min (set (col M j)) \<le> M ! i ! j"
    using assms(3) len by (intro col_Min_le) simp
  from col_Min_entry [OF ne, of j] obtain k where "k < n" "Min (set (col M j)) = M ! k ! j"
    using len by auto
  then have "0 \<le> Min (set (col M j))" using assms(2,4) by simp
  with le have "0 < M ! i ! j + (if Min (set (col M j)) = 0 then 1 else 0)"
    using assms(2,3,4) by (auto simp: less_le)
  then show ?thesis
    using assms(1,3,4) by (simp add: add1to0_def Let_def is_matrix_ncols shift_cols_entry)
qed

lemma sum_list_pos_real: "xs \<noteq> [] \<Longrightarrow> (\<And>x. x \<in> set xs \<Longrightarrow> 0 < x) \<Longrightarrow> 0 < sum_list (xs :: real list)"
  by (induction xs) (auto intro: add_pos_nonneg sum_list_nonneg less_imp_le)

lemma column_norm_positive:
  assumes "is_matrix n m M" and "\<forall>i<n. \<forall>j<m. 0 < M ! i ! j" and "j < m"
  shows "0 < sqrt (sum_list (map (\<lambda>x. x * x) (col M j)))"
proof -
  have len: "length M = n" and ne: "M \<noteq> []" using assms(1) by (auto simp: is_matrix_def)
  have "0 < x" if "x \<in> set (col M j)" for x
    using that assms(2,3) len by (auto simp: col_def in_set_conv_nth)
  then have "0 < sum_list (map (\<lambda>x. x * x) (col M j))"
    using ne by (intro sum_list_pos_real) (auto simp: col_def)
  then show ?thesis by simp
qed

lemma vector_positive:
  assumes "is_matrix n m M" and "\<forall>i<n. \<forall>j<m. 0 < M ! i ! j"
  shows "\<exists>N. vector M = Inr N \<and> is_matrix n m N \<and> positive N"
proof -
  let ?norms = "map (\<lambda>j. sqrt (sum_list (map (\<lambda>x. x * x) (col M j)))) [0..<m]"
  let ?N = "map (\<lambda>r. map2 (\<lambda>x d. x / d) r ?norms) M"
  have pos: "0 < ?norms ! j" if "j < m" for j
    using column_norm_positive [OF assms that] that by simp
  have "d \<noteq> 0" if "d \<in> set ?norms" for d
  proof -
    from that obtain j where "j < m" and "d = sqrt (sum_list (map (\<lambda>x. x * x) (col M j)))"
      by auto
    with column_norm_positive [OF assms, of j] show ?thesis by simp
  qed
  then have "\<not> list_ex (\<lambda>d. d = 0) ?norms"
    unfolding list_ex_iff by blast
  then have v: "vector M = Inr ?N"
    by (simp add: vector_def Let_def is_matrix_ncols [OF assms(1)])
  have m: "is_matrix n m ?N" by (rule shift_cols_matrix [OF assms(1)]) simp
  have "0 < ?N ! i ! j" if "i < n" "j < m" for i j
    using shift_cols_entry [OF assms(1) _ that, of ?norms "\<lambda>x d. x / d"] pos [OF that(2)] assms(2) that
    by simp
  then have "positive ?N" by (simp add: is_matrix_entries [OF m])
  with v m show ?thesis by blast
qed

lemma fmf_log_input:
  assumes "is_matrix n m mtx"
  shows "\<exists>nmtx. vector (add1to0 (push_negatives mtx)) = Inr nmtx \<and> is_matrix n m nmtx \<and> positive nmtx"
proof -
  have a: "is_matrix n m (push_negatives mtx)" by (rule push_negatives_matrix [OF assms])
  have b: "\<forall>i<n. \<forall>j<m. 0 \<le> push_negatives mtx ! i ! j"
    using push_negatives_nonneg [OF assms] by blast
  have c: "is_matrix n m (add1to0 (push_negatives mtx))" by (rule add1to0_matrix [OF a])
  have d: "\<forall>i<n. \<forall>j<m. 0 < add1to0 (push_negatives mtx) ! i ! j"
    using add1to0_positive [OF a b] by blast
  show ?thesis by (rule vector_positive [OF c d])
qed

lemma priv_fmf_no_log_error: "positive nmtx \<Longrightarrow> priv_fmf nmtx criteria \<noteq> Inl LogOfNonPositive"
  by (auto simp: priv_fmf_def np_log_positive np_not_def np_delete_cols_def Let_def
      split: sum.splits list.splits if_splits)

text \<open>
  Claim C8. For every matrix with at least one row, \<open>fmf\<close> with the vector normalization
  takes the logarithms of the matrix that \<open>push_negatives\<close>, then \<open>add1to0\<close>, then the
  normalization yield, in this order; the normalization succeeds on it, every entry of
  the result is strictly positive, and so \<open>fmf\<close> never ends with the logarithm of an
  entry that is not positive.
\<close>

theorem fmf_preprocessing:
  assumes "is_matrix n m mtx"
  shows "\<exists>nmtx. vector (add1to0 (push_negatives mtx)) = Inr nmtx \<and>
           is_matrix n m nmtx \<and> positive nmtx \<and>
           fmf vector mtx criteria =
             (case criteriarr criteria of Inl e \<Rightarrow> Inl e | Inr ncriteria \<Rightarrow> priv_fmf nmtx ncriteria) \<and>
           fmf vector mtx criteria \<noteq> Inl LogOfNonPositive"
proof -
  from fmf_log_input [OF assms] obtain nmtx
    where v: "vector (add1to0 (push_negatives mtx)) = Inr nmtx"
      and m: "is_matrix n m nmtx" and p: "positive nmtx"
    by blast
  have f: "fmf vector mtx criteria =
      (case criteriarr criteria of Inl e \<Rightarrow> Inl e | Inr ncriteria \<Rightarrow> priv_fmf nmtx ncriteria)"
    by (simp add: fmf_def Let_def v)
  have "fmf vector mtx criteria \<noteq> Inl LogOfNonPositive"
    using priv_fmf_no_log_error [OF p] by (auto simp: f criteriarr_def split: sum.splits if_splits)
  with v m p f show ?thesis by blast
qed

theorem fmf_preprocessing_witness:
  "is_matrix 2 2 ([[- 1, 2], [3, 0]] :: matrix) \<and>
   (\<exists>nmtx. vector (add1to0 (push_negatives [[- 1, 2], [3, 0]])) = Inr nmtx \<and> positive nmtx) \<and>
   fmf vector [[- 1, 2], [3, 0]] [util_MAX, util_MIN] \<noteq> Inl LogOfNonPositive"
proof -
  have h: "is_matrix 2 2 ([[- 1, 2], [3, 0]] :: matrix)" by (simp add: is_matrix_def)
  from fmf_preprocessing [OF h, of "[util_MAX, util_MIN]"] h show ?thesis by blast
qed


lemma fmf_all_max_returns:
  assumes "is_matrix n m mtx"
  shows "\<exists>r. fmf vector mtx [util_MAX] = Inr r"
proof -
  from fmf_log_input [OF assms] obtain nmtx
    where v: "vector (add1to0 (push_negatives mtx)) = Inr nmtx" and p: "positive nmtx"
    by blast
  show ?thesis
    by (simp add: fmf_def Let_def v criteriarr_def priv_fmf_def np_log_positive [OF p]
        setdiff1d_def np_not_def)
qed

lemma vector_zero_entry: "vector [[0], [1]] = Inr [[0], [1]]"
  by (simp add: vector_def ncols_def col_def)

lemma vector_negative_entry: "vector [[- 3], [4]] = Inr [[- 3 / 5], [4 / 5]]"
  by (simp add: vector_def ncols_def col_def sqrt_25)

text \<open>
  Claim C9. \<open>multimoora\<close> passes the normalized matrix to \<open>_fmf\<close> without
  \<open>push_negatives\<close> and \<open>add1to0\<close>: for the matrix of the column (0, 1), and for the one
  of the column (-3, 4), the normalized matrix keeps the entry that is not positive and
  \<open>multimoora\<close> ends with the logarithm of it, while \<open>fmf\<close> returns a result on the same
  input.
\<close>

theorem multimoora_log_of_non_positive:
  "vector [[0], [1]] = Inr [[0], [1]] \<and>
   multimoora vector [[0], [1]] [util_MAX] = Inl LogOfNonPositive \<and>
   (\<exists>r. fmf vector [[0], [1]] [util_MAX] = Inr r) \<and>
   vector [[- 3], [4]] = Inr [[- 3 / 5], [4 / 5]] \<and>
   multimoora vector [[- 3], [4]] [util_MAX] = Inl LogOfNonPositive \<and>
   (\<exists>r. fmf vector [[- 3], [4]] [util_MAX] = Inr r)"
proof (intro conjI)
  show "vector [[0], [1]] = Inr [[0], [1]]" by (rule vector_zero_entry)
  show "vector [[- 3], [4]] = Inr [[- 3 / 5], [4 / 5]]" by (rule vector_negative_entry)
  have "priv_ratio [[0], [1]] [1] (Scalar 1) = Inr ([1, 0], [0, 1])"
    by (simp add: eval_defs)
  moreover have "priv_refpoint [[0], [1]] [1] (Scalar 1) = Inr ([1, 0], [1, 0])"
    by (simp add: eval_defs)
  moreover have "priv_fmf [[0], [1]] [1] = Inl LogOfNonPositive"
    by (simp add: priv_fmf_def np_log_def)
  ultimately show "multimoora vector [[0], [1]] [util_MAX] = Inl LogOfNonPositive"
    by (simp add: multimoora_def vector_zero_entry criteriarr_def util_MAX_def)
  have "priv_ratio [[- 3 / 5], [4 / 5]] [1] (Scalar 1) = Inr ([1, 0], [- 3 / 5, 4 / 5])"
    by (simp add: eval_defs)
  moreover have "priv_refpoint [[- 3 / 5], [4 / 5]] [1] (Scalar 1) = Inr ([1, 0], [7 / 5, 0])"
    by (simp add: eval_defs)
  moreover have "priv_fmf [[- 3 / 5], [4 / 5]] [1] = Inl LogOfNonPositive"
    by (simp add: priv_fmf_def np_log_def)
  ultimately show "multimoora vector [[- 3], [4]] [util_MAX] = Inl LogOfNonPositive"
    by (simp add: multimoora_def vector_negative_entry criteriarr_def util_MAX_def)
  have "is_matrix 2 1 ([[0], [1]] :: matrix)" by (simp add: is_matrix_def)
  then show "\<exists>r. fmf vector [[0], [1]] [util_MAX] = Inr r" by (rule fmf_all_max_returns)
  have "is_matrix 2 1 ([[- 3], [4]] :: matrix)" by (simp add: is_matrix_def)
  then show "\<exists>r. fmf vector [[- 3], [4]] [util_MAX] = Inr r" by (rule fmf_all_max_returns)
qed

end
